theory Spec2Isabelle
  imports
    Main
    "HOL-Library.Word"
    "HOL-Library.Multiset"
    "HOL-Library.Sublist"
    "HOL-Library.Char_ord"
    "HOL-Library.List_Lexorder"
    "HOL-Library.Product_Lexorder"
begin

unbundle bit_operations_syntax

section \<open>Go values shared by all packages\<close>

text \<open>
  \<open>uintptr\<close>, \<open>uint64\<close> and \<open>syscall.Errno\<close> (a \<open>uintptr\<close>) are 64-bit words on
  linux/amd64, the only platform the landlock files build for (\<open>//go:build linux\<close>).
\<close>

type_synonym uintptr = "64 word"
type_synonym errno = "64 word"

text \<open>
  Go \<open>error\<close> values. \<open>nil\<close> is \<open>None\<close> of \<open>error option\<close>. \<open>Errorf fmt args e\<close> is
  \<open>fmt.Errorf(fmt, args..., e)\<close> with the verb \<open>%w\<close> for \<open>e\<close>: the format string, the
  arguments printed before the wrapped error, and the wrapped error itself.
  \<open>OtherError\<close> stands for any error value a collaborator outside the modelled files
  hands in (an \<open>*os.PathError\<close>, an I/O error, a git failure).
\<close>

datatype error =
    ErrLandlockDisabled
  | ErrLandLockNotSupported
  | Errno errno
  | Errorf string "string list" error
  | ErrorsNew string
  | ErrTaskRunSkipped
  | ErrUntrackedGitFilesExist "string list"
  | OtherError string

section \<open>Package landlock: the error mapping\<close>

text \<open>The two errno values of \<open>syscall\<close> on Linux that \<open>errnoToError\<close> tests for.\<close>

definition ENOSYS :: errno where
  "ENOSYS = 0x26"

definition EOPNOTSUPP :: errno where
  "EOPNOTSUPP = 0x5f"

text \<open>
  \<open>errors.Is(err, target)\<close> for a \<open>syscall.Errno\<close> \<open>err\<close> and an errno constant
  \<open>target\<close>: the two are comparable, so the first test of \<open>errors.Is\<close> is their
  equality; \<open>Errno.Is\<close> answers true only for the \<open>oserror\<close> sentinels, which the
  two targets used here are not.
\<close>

definition errors_Is_Errno :: "errno \<Rightarrow> errno \<Rightarrow> bool" where
  "errors_Is_Errno err target = (err = target)"

definition errnoToError :: "errno \<Rightarrow> error option" where
  "errnoToError err =
     (if err \<noteq> 0 then
        (if errors_Is_Errno err EOPNOTSUPP then Some ErrLandlockDisabled
         else if errors_Is_Errno err ENOSYS then Some ErrLandLockNotSupported
         else Some (Errno err))
      else None)"

section \<open>The operating system as seen by the sandbox code\<close>

text \<open>
  The calls the landlock and exec packages make. A pointer argument of a system call
  is represented by the structure it points to: \<open>RulesetAttrPtr a\<close> points to
  \<open>LandlockRulesetAttr{Access_fs: a}\<close>, \<open>PathBeneathAttrPtr a fd\<close> to
  \<open>LandlockPathBeneathAttr{Allowed_access: a, Parent_fd: fd}\<close>.
\<close>

datatype sysarg =
    Val uintptr
  | RulesetAttrPtr "64 word"
  | PathBeneathAttrPtr "64 word" "32 word"

datatype call =
    Syscall uintptr "sysarg list"
  | IsDir string
  | Open string int "32 word"
  | Close int
  | Prctl int uintptr uintptr uintptr uintptr
  | Chdir string
  | Execve string "string list" "string list"

text \<open>
  The kernel and the file system are a parameter of the model. Each field answers one
  kind of call; its argument is the list of all calls made so far, the call being
  answered last, so an answer may depend on everything that happened before.
  \<open>Syscall_ret\<close> gives \<open>(r1, errno)\<close> of \<open>unix.Syscall\<close>/\<open>unix.Syscall6\<close>;
  \<open>Exec_ret\<close> gives the error of \<open>syscall.Exec\<close>, which returns only when it failed:
  \<open>None\<close> says the process image was replaced.
\<close>

record os =
  Syscall_ret :: "call list \<Rightarrow> uintptr \<times> errno"
  IsDir_ret :: "call list \<Rightarrow> bool \<times> error option"
  Open_ret :: "call list \<Rightarrow> int \<times> error option"
  Prctl_ret :: "call list \<Rightarrow> error option"
  Chdir_ret :: "call list \<Rightarrow> error option"
  Exec_ret :: "call list \<Rightarrow> error option"

section \<open>Package landlock: Version and NewFSRuleset\<close>

text \<open>Constants of \<open>golang.org/x/sys/unix\<close> (linux/amd64) and of the package.\<close>

definition LANDLOCK_CREATE_RULESET_VERSION :: uintptr where
  "LANDLOCK_CREATE_RULESET_VERSION = 0x1"

definition SYS_LANDLOCK_CREATE_RULESET :: uintptr where
  "SYS_LANDLOCK_CREATE_RULESET = 444"

definition SYS_LANDLOCK_ADD_RULE :: uintptr where
  "SYS_LANDLOCK_ADD_RULE = 445"

definition SYS_LANDLOCK_RESTRICT_SELF :: uintptr where
  "SYS_LANDLOCK_RESTRICT_SELF = 446"

definition version :: uintptr where
  "version = 0"

definition LANDLOCK_ACCESS_FS_READ_FILE :: "64 word" where
  "LANDLOCK_ACCESS_FS_READ_FILE = 0x4"

definition LANDLOCK_ACCESS_FS_READ_DIR :: "64 word" where
  "LANDLOCK_ACCESS_FS_READ_DIR = 0x8"

definition LANDLOCK_ACCESS_FS_REMOVE_DIR :: "64 word" where
  "LANDLOCK_ACCESS_FS_REMOVE_DIR = 0x10"

definition LANDLOCK_ACCESS_FS_MAKE_DIR :: "64 word" where
  "LANDLOCK_ACCESS_FS_MAKE_DIR = 0x80"

definition fsRights :: "64 word" where
  "fsRights = LANDLOCK_ACCESS_FS_READ_DIR OR LANDLOCK_ACCESS_FS_READ_FILE"

text \<open>Go's \<open>x &^ y\<close> (bit clear) is \<open>x AND NOT y\<close>.\<close>

definition fileRights :: "64 word" where
  "fileRights = fsRights AND NOT (LANDLOCK_ACCESS_FS_MAKE_DIR OR
     LANDLOCK_ACCESS_FS_READ_DIR OR
     LANDLOCK_ACCESS_FS_REMOVE_DIR)"

text \<open>
  Every function below takes the calls \<open>h\<close> made before it started and returns the
  calls it made itself, in order, with its Go results. A Go result list
  \<open>(v, err)\<close> is a pair whose error component is an \<open>error option\<close>.
\<close>

definition Version_call :: call where
  "Version_call = Syscall LANDLOCK_CREATE_RULESET_VERSION [Val 0, Val 0, Val 0]"

definition Version :: "os \<Rightarrow> call list \<Rightarrow> call list \<times> int \<times> error option" where
  "Version os h =
     (let cs = [Version_call];
          (r, err) = Syscall_ret os (h @ cs)
      in if err \<noteq> 0 then (cs, -1, errnoToError err)
         else (cs, sint r, None))"

record FSRuleset =
  filedescriptor :: uintptr

definition NewFSRuleset_call :: call where
  "NewFSRuleset_call =
     Syscall SYS_LANDLOCK_CREATE_RULESET [RulesetAttrPtr fsRights, Val 24, Val version]"

definition NewFSRuleset :: "os \<Rightarrow> call list \<Rightarrow> call list \<times> FSRuleset option \<times> error option" where
  "NewFSRuleset os h =
     (let cs = [NewFSRuleset_call];
          (r, err) = Syscall_ret os (h @ cs)
      in if err \<noteq> 0 then (cs, None, errnoToError err)
         else (cs, Some \<lparr>filedescriptor = r\<rparr>, None))"

text \<open>
  A kernel without the Landlock system calls: the system calls 444, 445 and 446 fail
  with \<open>ENOSYS\<close> (result \<open>-1\<close>), every other system call succeeds with result 0.
  System call 1 is \<open>write\<close> on linux/amd64; with the arguments \<open>(0, 0, 0)\<close> it writes
  no byte and returns 0.
\<close>

definition kernel_without_landlock :: os where
  "kernel_without_landlock =
     \<lparr>Syscall_ret = (\<lambda>h. case last h of
          Syscall n args \<Rightarrow> if n = 444 \<or> n = 445 \<or> n = 446 then (-1, ENOSYS) else (0, 0)
        | _ \<Rightarrow> (0, 0)),
      IsDir_ret = (\<lambda>h. (False, None)),
      Open_ret = (\<lambda>h. (3, None)),
      Prctl_ret = (\<lambda>h. None),
      Chdir_ret = (\<lambda>h. None),
      Exec_ret = (\<lambda>h. None)\<rparr>"

section \<open>Package landlock: Allow and Restrict\<close>

definition O_PATH :: int where
  "O_PATH = 0x200000"

definition O_CLOEXEC :: int where
  "O_CLOEXEC = 0x80000"

definition LANDLOCK_RULE_PATH_BENEATH :: uintptr where
  "LANDLOCK_RULE_PATH_BENEATH = 0x1"

definition PR_SET_NO_NEW_PRIVS :: int where
  "PR_SET_NO_NEW_PRIVS = 0x26"

text \<open>
  \<open>fs.IsDir\<close> belongs to a package of the repository that is not among the modelled
  files; its answer is the \<open>IsDir_ret\<close> field of the operating system.
\<close>

definition accessRights :: "os \<Rightarrow> call list \<Rightarrow> string \<Rightarrow> call list \<times> 64 word \<times> error option" where
  "accessRights os h path =
     (let cs = [IsDir path];
          (isDir, err) = IsDir_ret os (h @ cs)
      in case err of
           Some e \<Rightarrow> (cs, 0, Some e)
         | None \<Rightarrow> if isDir then (cs, fsRights, None) else (cs, fileRights, None))"

text \<open>
  \<open>Allow\<close>. \<open>int32(f)\<close> is \<open>word_of_int f\<close>; the deferred \<open>syscall.Close(f)\<close> runs when
  the function returns after the descriptor was opened, so it follows the
  \<open>landlock_add_rule\<close> call on both of the remaining paths.
\<close>

definition Allow_rule_call :: "FSRuleset \<Rightarrow> 64 word \<Rightarrow> int \<Rightarrow> call" where
  "Allow_rule_call rs perms f =
     Syscall SYS_LANDLOCK_ADD_RULE
       [Val (filedescriptor rs), Val LANDLOCK_RULE_PATH_BENEATH,
        PathBeneathAttrPtr perms (word_of_int f), Val 0, Val 0, Val 0]"

definition Allow :: "os \<Rightarrow> call list \<Rightarrow> FSRuleset \<Rightarrow> string \<Rightarrow> call list \<times> error option" where
  "Allow os h rs path =
     (case accessRights os h path of (cs1, perms, err) \<Rightarrow>
        (case err of
           Some e \<Rightarrow> (cs1, Some e)
         | None \<Rightarrow>
             (let cs2 = cs1 @ [Open path (O_PATH OR O_CLOEXEC) 0];
                  (f, err) = Open_ret os (h @ cs2)
              in case err of
                   Some e \<Rightarrow> (cs2, Some e)
                 | None \<Rightarrow>
                     (let cs3 = cs2 @ [Allow_rule_call rs perms f];
                          (r, sysErr) = Syscall_ret os (h @ cs3);
                          cs4 = cs3 @ [Close f]
                      in if sysErr \<noteq> 0 then (cs4, errnoToError sysErr)
                         else (cs4, None)))))"

definition Restrict_prctl_call :: call where
  "Restrict_prctl_call = Prctl PR_SET_NO_NEW_PRIVS 1 0 0 0"

definition Restrict_self_call :: "FSRuleset \<Rightarrow> call" where
  "Restrict_self_call rs =
     Syscall SYS_LANDLOCK_RESTRICT_SELF [Val (filedescriptor rs), Val 0, Val 0]"

definition Restrict :: "os \<Rightarrow> call list \<Rightarrow> FSRuleset \<Rightarrow> call list \<times> error option" where
  "Restrict os h rs =
     (let cs1 = [Restrict_prctl_call]
      in case Prctl_ret os (h @ cs1) of
           Some err \<Rightarrow> (cs1, Some (Errorf ''prctl failed: %w'' [] err))
         | None \<Rightarrow>
             (let cs2 = cs1 @ [Restrict_self_call rs];
                  (r, sysErr) = Syscall_ret os (h @ cs2)
              in (cs2, errnoToError sysErr)))"

section \<open>Package storage: the records the registry stores\<close>

text \<open>
  The struct types of package \<open>storage\<close> are not among the modelled files; the
  records hold the fields \<open>insert.go\<close> reads. A \<open>time.Time\<close> is a \<open>nat\<close>; the named
  string types (\<open>ArtifactType\<close>, \<open>UploadMethod\<close>, \<open>Result\<close>) are strings. The slices
  of pointers to structs are lists of records (no element is nil).
\<close>

record InputFile =
  Path :: string
  Digest :: string

record InputString =
  String :: string
  Digest :: string

record InputEnvVar =
  Name :: string
  Digest :: string

record InputTaskInfo =
  Name :: string
  Digest :: string

record Upload =
  URI :: string
  Method :: string
  UploadStartTimestamp :: nat
  UploadStopTimestamp :: nat

record Output =
  Name :: string
  Type :: string
  Digest :: string
  SizeBytes :: "64 word"
  Uploads :: "Upload list"

record Inputs =
  Files :: "InputFile list"
  Strings :: "InputString list"
  EnvironmentVariables :: "InputEnvVar list"
  TaskInfo :: "InputTaskInfo list"

record TaskRunFull =
  ApplicationName :: string
  TaskName :: string
  VCSRevision :: string
  VCSIsDirty :: bool
  TotalInputDigest :: string
  StartTimestamp :: nat
  StopTimestamp :: nat
  Result :: string
  Inputs :: Inputs
  Outputs :: "Output list"

section \<open>Package exec: CmdSandboxed.Exec\<close>

record CmdSandboxed =
  Name :: string
  Args :: "string list"
  Dir :: string
  Env :: "string list"
  AllowedFSAccessPaths :: "string list"

text \<open>
  What a call of \<open>Exec\<close> ends in: it returns an error value, or \<open>syscall.Exec\<close>
  replaced the process image and nothing returns, or the goroutine panics.
\<close>

datatype outcome = Returned "error option" | ImageReplaced | Panic

text \<open>The loop \<open>for _, p := range c.AllowedFSAccessPaths\<close>.\<close>

fun Exec_allow_paths :: "os \<Rightarrow> call list \<Rightarrow> FSRuleset \<Rightarrow> string list \<Rightarrow> call list \<times> error option" where
  "Exec_allow_paths os h rs [] = ([], None)"
| "Exec_allow_paths os h rs (p # ps) =
     (case Allow os h rs p of
        (cs, Some err) \<Rightarrow>
          (cs, Some (Errorf ''adding landlock rule to permit fs access to %q failed: %w'' [p] err))
      | (cs, None) \<Rightarrow>
          (case Exec_allow_paths os (h @ cs) rs ps of (cs', r) \<Rightarrow> (cs @ cs', r)))"

text \<open>
  \<open>Exec\<close>. A nil ruleset together with a nil error would make the method calls on
  \<open>rs\<close> dereference nil; \<open>NewFSRuleset\<close> never returns that pair.
\<close>

definition Exec :: "os \<Rightarrow> call list \<Rightarrow> CmdSandboxed \<Rightarrow> call list \<times> outcome" where
  "Exec os h c =
     (case NewFSRuleset os h of (cs0, rso, err) \<Rightarrow>
        (case err of
           Some e \<Rightarrow> (cs0, Returned (Some (Errorf ''creating landlock ruleset failed: %w'' [] e)))
         | None \<Rightarrow>
             (case rso of
                None \<Rightarrow> (cs0, Panic)
              | Some rs \<Rightarrow>
                  (case Exec_allow_paths os (h @ cs0) rs (AllowedFSAccessPaths c) of
                     (cs1, Some e) \<Rightarrow> (cs0 @ cs1, Returned (Some e))
                   | (cs1, None) \<Rightarrow>
                       (case Restrict os (h @ cs0 @ cs1) rs of
                          (cs2, Some e) \<Rightarrow>
                            (cs0 @ cs1 @ cs2,
                             Returned (Some (Errorf ''restricting landlock file access failed: %w'' [] e)))
                        | (cs2, None) \<Rightarrow>
                            (let cs3 = cs0 @ cs1 @ cs2 @ [Chdir (Dir c)]
                             in case Chdir_ret os (h @ cs3) of
                                  Some e \<Rightarrow> (cs3, Returned (Some e))
                                | None \<Rightarrow>
                                    (let cs4 = cs3 @ [Execve (Name c) (Args c) (Env c)]
                                     in case Exec_ret os (h @ cs4) of
                                          Some e \<Rightarrow>
                                            (cs4, Returned (Some (Errorf ''exec failed: %w'' [] e)))
                                        | None \<Rightarrow> (cs4, ImageReplaced))))))))"

section \<open>The order of steps of Exec, as the specification words it\<close>

text \<open>
  The steps the specification names, and the step each call of the model stands for.
  They are used only to state properties of \<open>Exec\<close>; the model above does not
  mention them.
\<close>

datatype step =
    CreateRuleset
  | StatPath string
  | OpenPath string
  | AddRule
  | CloseFd
  | NoNewPrivs
  | RestrictSelf
  | ChangeDir string
  | ReplaceImage string "string list" "string list"
  | OtherCall

fun step_of :: "call \<Rightarrow> step" where
  "step_of (Syscall n args) =
     (if n = SYS_LANDLOCK_CREATE_RULESET then CreateRuleset
      else if n = SYS_LANDLOCK_ADD_RULE then AddRule
      else if n = SYS_LANDLOCK_RESTRICT_SELF then RestrictSelf
      else OtherCall)"
| "step_of (IsDir p) = StatPath p"
| "step_of (Open p m perm) = OpenPath p"
| "step_of (Close f) = CloseFd"
| "step_of (Prctl opt a2 a3 a4 a5) =
     (if opt = PR_SET_NO_NEW_PRIVS then NoNewPrivs else OtherCall)"
| "step_of (Chdir d) = ChangeDir d"
| "step_of (Execve n a e) = ReplaceImage n a e"

text \<open>One allow rule: stat the path, open it, add the rule, close the descriptor.\<close>

definition Allow_steps :: "string \<Rightarrow> step list" where
  "Allow_steps p = [StatPath p, OpenPath p, AddRule, CloseFd]"

text \<open>
  The order the specification gives for \<open>Exec\<close>: create the ruleset, one allow rule
  per path in list order, self-restrict (no-new-privileges first), change the
  directory, replace the image.
\<close>

definition Exec_prepare_steps :: "CmdSandboxed \<Rightarrow> step list" where
  "Exec_prepare_steps c =
     CreateRuleset # concat (map Allow_steps (AllowedFSAccessPaths c)) @
     [NoNewPrivs, RestrictSelf, ChangeDir (Dir c)]"

definition Exec_steps :: "CmdSandboxed \<Rightarrow> step list" where
  "Exec_steps c = Exec_prepare_steps c @ [ReplaceImage (Name c) (Args c) (Env c)]"

fun is_Execve :: "call \<Rightarrow> bool" where
  "is_Execve (Execve n a e) = True"
| "is_Execve c = False"

text \<open>
  \<open>call_ok os h x\<close>: the operating system answers the call \<open>x\<close>, made after the calls
  \<open>h\<close>, with success. \<open>all_ok os h xs\<close>: it does so for each call of \<open>xs\<close> in turn.
\<close>

fun call_ok :: "os \<Rightarrow> call list \<Rightarrow> call \<Rightarrow> bool" where
  "call_ok os h (Syscall n args) = (snd (Syscall_ret os (h @ [Syscall n args])) = 0)"
| "call_ok os h (IsDir p) = (snd (IsDir_ret os (h @ [IsDir p])) = None)"
| "call_ok os h (Open p m perm) = (snd (Open_ret os (h @ [Open p m perm])) = None)"
| "call_ok os h (Close f) = True"
| "call_ok os h (Prctl opt a2 a3 a4 a5) = (Prctl_ret os (h @ [Prctl opt a2 a3 a4 a5]) = None)"
| "call_ok os h (Chdir d) = (Chdir_ret os (h @ [Chdir d]) = None)"
| "call_ok os h (Execve n a e) = (Exec_ret os (h @ [Execve n a e]) = None)"

fun all_ok :: "os \<Rightarrow> call list \<Rightarrow> call list \<Rightarrow> bool" where
  "all_ok os h [] = True"
| "all_ok os h (x # xs) = (call_ok os h x \<and> all_ok os (h @ [x]) xs)"

text \<open>
  \<open>follows os h steps cs ok\<close>: the calls \<open>cs\<close>, made after \<open>h\<close>, are a beginning of
  \<open>steps\<close> without a call of \<open>syscall.Exec\<close>; \<open>ok\<close> says whether all of them
  succeeded, and when they did they are all of \<open>steps\<close>.
\<close>

definition follows :: "os \<Rightarrow> call list \<Rightarrow> step list \<Rightarrow> call list \<Rightarrow> bool \<Rightarrow> bool" where
  "follows os h steps cs ok \<longleftrightarrow>
     prefix (map step_of cs) steps \<and> (\<forall>x\<in>set cs. \<not> is_Execve x) \<and>
     (ok \<longleftrightarrow> all_ok os h cs) \<and> (ok \<longrightarrow> map step_of cs = steps)"

text \<open>
  Operating systems for concrete runs: one on which every call succeeds (descriptor 3
  for the ruleset, 4 for every opened path, every path a regular file except
  \<open>/usr/lib\<close>), and the same with \<open>prctl\<close> failing with \<open>EPERM\<close>.
\<close>

definition os_all_ok :: os where
  "os_all_ok =
     \<lparr>Syscall_ret = (\<lambda>h. (if last h = NewFSRuleset_call then 3 else 0, 0)),
      IsDir_ret = (\<lambda>h. (last h = IsDir ''/usr/lib'', None)),
      Open_ret = (\<lambda>h. (4, None)),
      Prctl_ret = (\<lambda>h. None),
      Chdir_ret = (\<lambda>h. None),
      Exec_ret = (\<lambda>h. None)\<rparr>"

definition os_prctl_fails :: os where
  "os_prctl_fails = os_all_ok\<lparr>Prctl_ret := (\<lambda>h. Some (Errno 1))\<rparr>"

definition cmd_make :: CmdSandboxed where
  "cmd_make =
     \<lparr>Name = ''/usr/bin/make'', Args = [''make'', ''all''], Dir = ''/repo/app'',
      Env = [''PATH=/usr/bin''], AllowedFSAccessPaths = [''/usr/lib'', ''/repo/app/main.c'']\<rparr>"

text \<open>A command without allowed paths.\<close>

definition cmd_true :: CmdSandboxed where
  "cmd_true =
     \<lparr>Name = ''/bin/true'', Args = [''true''], Dir = ''/'', Env = [],
      AllowedFSAccessPaths = []\<rparr>"

text \<open>The calls of a run of \<open>cmd_make\<close> on which every call succeeds.\<close>

definition cmd_make_calls :: "call list" where
  "cmd_make_calls =
     [NewFSRuleset_call,
      IsDir ''/usr/lib'', Open ''/usr/lib'' (O_PATH OR O_CLOEXEC) 0,
      Allow_rule_call \<lparr>filedescriptor = 3\<rparr> fsRights 4, Close 4,
      IsDir ''/repo/app/main.c'', Open ''/repo/app/main.c'' (O_PATH OR O_CLOEXEC) 0,
      Allow_rule_call \<lparr>filedescriptor = 3\<rparr> fileRights 4, Close 4,
      Restrict_prctl_call, Restrict_self_call \<lparr>filedescriptor = 3\<rparr>,
      Chdir ''/repo/app'',
      Execve ''/usr/bin/make'' [''make'', ''all''] [''PATH=/usr/bin'']]"

section \<open>The serialization of CmdSandboxed: encoding/gob\<close>

text \<open>
  Modelled from the spec: the child-process IPC is "a length-prefixed serialized
  SandboxedCommand" in "a self-describing binary format". \<open>encodeCmdSb\<close> and
  \<open>decodeCmdSb\<close> only call \<open>gob.NewEncoder(..).Encode\<close> and
  \<open>gob.NewDecoder(..).Decode\<close> of Go's standard library, whose code is not part of
  the repository; the definitions of this section follow the wire format the
  documentation of \<open>encoding/gob\<close> describes. A byte is a \<open>char\<close>; a Go string is
  its bytes; a slice is the list of its elements (a nil slice and an empty slice are
  both \<open>[]\<close>). \<open>tooBig\<close> is the library's bound on the size of one message (64-bit
  platforms).
\<close>

type_synonym bytes = "char list"

definition tooBig :: nat where
  "tooBig = 8589934592"

text \<open>The bytes of a positive number, most significant first, without leading zeros.\<close>

fun be_bytes :: "nat \<Rightarrow> bytes" where
  "be_bytes n = (if n = 0 then [] else be_bytes (n div 256) @ [char_of (n mod 256)])"

definition be_nat :: "bytes \<Rightarrow> nat" where
  "be_nat bs = foldl (\<lambda>a b. a * 256 + of_char b) 0 bs"

text \<open>
  An unsigned integer (a \<open>uint64\<close>, hence the \<open>mod\<close>): one byte when below 128,
  otherwise the negated byte count in one byte, then the bytes. A signed integer
  is sent as an unsigned one with the sign in bit 0.
\<close>

definition encodeUint :: "nat \<Rightarrow> bytes" where
  "encodeUint n =
     (let x = n mod 18446744073709551616
      in if x \<le> 0x7F then [char_of x]
         else char_of (256 - length (be_bytes x)) # be_bytes x)"

definition encodeInt :: "int \<Rightarrow> bytes" where
  "encodeInt i = encodeUint (if i < 0 then 2 * nat (- i - 1) + 1 else 2 * nat i)"

definition encString :: "string \<Rightarrow> bytes" where
  "encString s = encodeUint (length s) @ s"

definition encStrings :: "string list \<Rightarrow> bytes" where
  "encStrings xs = encodeUint (length xs) @ concat (map encString xs)"

text \<open>
  A struct is the sequence of its non-zero fields, each preceded by the distance of
  its field number from the previous one sent (starting from -1), and a zero byte
  at the end.
\<close>

datatype field = FString string | FStrings "string list"

fun field_is_zero :: "field \<Rightarrow> bool" where
  "field_is_zero (FString s) = (length s = 0)"
| "field_is_zero (FStrings xs) = (length xs = 0)"

fun encField :: "field \<Rightarrow> bytes" where
  "encField (FString s) = encString s"
| "encField (FStrings xs) = encStrings xs"

fun encFields :: "int \<Rightarrow> int \<Rightarrow> field list \<Rightarrow> bytes" where
  "encFields prev n [] = [char_of (0 :: nat)]"
| "encFields prev n (f # fs) =
     (if field_is_zero f then encFields prev (n + 1) fs
      else encodeUint (nat (n - prev)) @ encField f @ encFields n (n + 1) fs)"

definition CmdSandboxed_fields :: "CmdSandboxed \<Rightarrow> field list" where
  "CmdSandboxed_fields c =
     [FString (Name c), FStrings (Args c), FString (Dir c), FStrings (Env c),
      FStrings (AllowedFSAccessPaths c)]"

definition encStruct :: "CmdSandboxed \<Rightarrow> bytes" where
  "encStruct c = encFields (-1) 0 (CmdSandboxed_fields c)"

text \<open>
  The descriptions of the two types sent before the first value: the struct with
  type id \<open>N\<close> and \<open>[]string\<close> with the next id (\<open>N\<close> is the first free type id
  of the process; \<open>string\<close> has the fixed id 6). They are \<open>wireType\<close> structs in the
  encoding above.
\<close>

definition gob_byte :: "nat \<Rightarrow> bytes" where
  "gob_byte n = [char_of n]"

definition wire_commonType :: "string \<Rightarrow> int \<Rightarrow> bytes" where
  "wire_commonType name tid =
     gob_byte 1 @ encString name @ gob_byte 1 @ encodeInt tid @ gob_byte 0"

definition wire_fieldType :: "string \<times> int \<Rightarrow> bytes" where
  "wire_fieldType f = gob_byte 1 @ encString (fst f) @ gob_byte 1 @ encodeInt (snd f) @ gob_byte 0"

definition wireType_struct :: "int \<Rightarrow> bytes" where
  "wireType_struct N =
     gob_byte 3 @
       gob_byte 1 @ wire_commonType ''CmdSandboxed'' N @
       gob_byte 1 @ encodeUint 5 @
         concat (map wire_fieldType
           [(''Name'', 6), (''Args'', N + 1), (''Dir'', 6), (''Env'', N + 1),
            (''AllowedFSAccessPaths'', N + 1)]) @
       gob_byte 0 @
     gob_byte 0"

definition wireType_slice :: "int \<Rightarrow> bytes" where
  "wireType_slice M =
     gob_byte 2 @
       gob_byte 1 @ wire_commonType ''[]string'' M @
       gob_byte 1 @ encodeInt 6 @
       gob_byte 0 @
     gob_byte 0"

text \<open>A message is its length, then its bytes; the encoder refuses one of \<open>tooBig\<close> bytes.\<close>

definition gob_message :: "bytes \<Rightarrow> error + bytes" where
  "gob_message payload =
     (if length payload \<ge> tooBig then Inl (ErrorsNew ''gob: encoder: message too big'')
      else Inr (encodeUint (length payload) @ payload))"

definition gob_Encode :: "int \<Rightarrow> CmdSandboxed \<Rightarrow> error + bytes" where
  "gob_Encode N c =
     (case gob_message (encodeInt (- N) @ wireType_struct N) of
        Inl e \<Rightarrow> Inl e
      | Inr m1 \<Rightarrow>
          (case gob_message (encodeInt (- (N + 1)) @ wireType_slice (N + 1)) of
             Inl e \<Rightarrow> Inl e
           | Inr m2 \<Rightarrow>
               (case gob_message (encodeInt N @ encStruct c) of
                  Inl e \<Rightarrow> Inl e
                | Inr m3 \<Rightarrow> Inr (m1 @ m2 @ m3))))"

section \<open>The serialization of CmdSandboxed: decoding\<close>

text \<open>
  Modelled from the spec: the reading side of the format of the section on
  \<open>encoding/gob\<close> above, as the documentation of \<open>encoding/gob\<close> describes it.
  Limits that the library's implementation puts on the number of elements of a slice
  are not modelled; the bound \<open>tooBig\<close> on the size of a message is.
\<close>

definition decodeUint :: "bytes \<Rightarrow> (nat \<times> bytes) option" where
  "decodeUint bs =
     (case bs of
        [] \<Rightarrow> None
      | b # rest \<Rightarrow>
          if (of_char b :: nat) \<le> 0x7F then Some (of_char b, rest)
          else (let n = 256 - (of_char b :: nat)
                in if n > 8 \<or> length rest < n then None
                   else Some (be_nat (take n rest), drop n rest)))"

definition decodeInt :: "bytes \<Rightarrow> (int \<times> bytes) option" where
  "decodeInt bs =
     (case decodeUint bs of
        None \<Rightarrow> None
      | Some (x, rest) \<Rightarrow>
          Some (if odd x then - int (x div 2) - 1 else int (x div 2), rest))"

definition decString :: "bytes \<Rightarrow> (string \<times> bytes) option" where
  "decString bs =
     (case decodeUint bs of
        None \<Rightarrow> None
      | Some (n, rest) \<Rightarrow>
          if n > length rest then None else Some (take n rest, drop n rest))"

text \<open>The elements of a slice of strings, \<open>n\<close> of them.\<close>

fun decStrings_n :: "nat \<Rightarrow> bytes \<Rightarrow> (string list \<times> bytes) option" where
  "decStrings_n 0 bs = Some ([], bs)"
| "decStrings_n (Suc n) bs =
     (case decString bs of
        None \<Rightarrow> None
      | Some (s, rest) \<Rightarrow>
          (case decStrings_n n rest of
             None \<Rightarrow> None
           | Some (ss, rest') \<Rightarrow> Some (s # ss, rest')))"

definition decStrings :: "bytes \<Rightarrow> (string list \<times> bytes) option" where
  "decStrings bs =
     (case decodeUint bs of
        None \<Rightarrow> None
      | Some (n, rest) \<Rightarrow> decStrings_n n rest)"

text \<open>The zero value of the kind of a field.\<close>

fun zero_of :: "field \<Rightarrow> field" where
  "zero_of (FString s) = FString []"
| "zero_of (FStrings xs) = FStrings []"

text \<open>A field is decoded as the kind of value that its place in the struct holds.\<close>

fun decField :: "field \<Rightarrow> bytes \<Rightarrow> (field \<times> bytes) option" where
  "decField (FString old) bs =
     (case decString bs of None \<Rightarrow> None | Some (s, rest) \<Rightarrow> Some (FString s, rest))"
| "decField (FStrings old) bs =
     (case decStrings bs of None \<Rightarrow> None | Some (xs, rest) \<Rightarrow> Some (FStrings xs, rest))"

text \<open>
  The fields of a struct value: a field number is the previous one plus the distance
  read, the distance zero ends the struct, and fields that were not sent keep the
  value they have. The number of bytes left, \<open>fuel\<close>, bounds the number of fields
  read: every field takes at least one byte.
\<close>

fun decFields :: "nat \<Rightarrow> int \<Rightarrow> field list \<Rightarrow> bytes \<Rightarrow> (field list \<times> bytes) option" where
  "decFields 0 prev slots bs = None"
| "decFields (Suc fuel) prev slots bs =
     (case decodeUint bs of
        None \<Rightarrow> None
      | Some (delta, rest) \<Rightarrow>
          if delta = 0 then Some (slots, rest)
          else (let n = prev + int delta
                in if n \<ge> int (length slots) then None
                   else (case decField (slots ! nat n) rest of
                           None \<Rightarrow> None
                         | Some (f, rest') \<Rightarrow> decFields fuel n (slots[nat n := f]) rest')))"

definition CmdSandboxed_zero :: CmdSandboxed where
  "CmdSandboxed_zero = \<lparr>Name = [], Args = [], Dir = [], Env = [], AllowedFSAccessPaths = []\<rparr>"

fun CmdSandboxed_of_fields :: "field list \<Rightarrow> CmdSandboxed option" where
  "CmdSandboxed_of_fields [FString n, FStrings a, FString d, FStrings e, FStrings p] =
     Some \<lparr>Name = n, Args = a, Dir = d, Env = e, AllowedFSAccessPaths = p\<rparr>"
| "CmdSandboxed_of_fields other = None"

definition decStruct :: "bytes \<Rightarrow> CmdSandboxed option" where
  "decStruct bs =
     (case decFields (length bs) (-1) (CmdSandboxed_fields CmdSandboxed_zero) bs of
        None \<Rightarrow> None
      | Some (slots, rest) \<Rightarrow> if rest = [] then CmdSandboxed_of_fields slots else None)"

text \<open>
  The messages of a stream: the length, then the type id; a negative id announces the
  description of the type with that id negated, which is noted; a value must be of a
  type noted before. \<open>fuel\<close> bounds the number of messages by the number of bytes.
\<close>

fun gob_Decode_messages :: "nat \<Rightarrow> int list \<Rightarrow> bytes \<Rightarrow> error + CmdSandboxed" where
  "gob_Decode_messages 0 known bs = Inl (OtherError ''EOF'')"
| "gob_Decode_messages (Suc fuel) known bs =
     (case decodeUint bs of
        None \<Rightarrow> Inl (OtherError ''EOF'')
      | Some (len, rest) \<Rightarrow>
          if len \<ge> tooBig then Inl (OtherError ''gob: bad count'')
          else if length rest < len then Inl (OtherError ''unexpected EOF'')
          else (case decodeInt (take len rest) of
                  None \<Rightarrow> Inl (OtherError ''gob: bad message'')
                | Some (tid, body) \<Rightarrow>
                    if tid < 0 then gob_Decode_messages fuel (- tid # known) (drop len rest)
                    else if tid \<notin> set known then Inl (OtherError ''gob: bad data: undefined type'')
                    else (case decStruct body of
                            None \<Rightarrow> Inl (OtherError ''gob: bad data'')
                          | Some c \<Rightarrow> Inr c)))"

definition gob_Decode :: "bytes \<Rightarrow> error + CmdSandboxed" where
  "gob_Decode buf = gob_Decode_messages (length buf) [] buf"

section \<open>Package baur: RunSandboxed and the command serialization\<close>

text \<open>\<open>encodeCmdSb\<close>: the buffer, or the encoder's error and no buffer.\<close>

definition encodeCmdSb :: "int \<Rightarrow> CmdSandboxed \<Rightarrow> bytes option \<times> error option" where
  "encodeCmdSb N cmd =
     (case gob_Encode N cmd of
        Inl err \<Rightarrow> (None, Some err)
      | Inr buf \<Rightarrow> (Some buf, None))"

text \<open>\<open>decodeCmdSb\<close>: the command, or the decoder's error and no command.\<close>

definition decodeCmdSb :: "bytes \<Rightarrow> CmdSandboxed option \<times> error option" where
  "decodeCmdSb r =
     (case gob_Decode r of
        Inl err \<Rightarrow> (None, Some err)
      | Inr result \<Rightarrow> (Some result, None))"

text \<open>
  The fields of \<open>TaskRunner\<close> and \<open>Task\<close> that \<open>RunSandboxed\<close> reads.
  \<open>SkipRunsIsEnabled\<close> is the answer of the method of that name (it reads an atomic
  flag of the runner). A nil \<open>GitUntrackedFilesFn\<close> is \<open>None\<close>.
\<close>

record TaskRunner =
  skipAfterError :: bool
  SkipRunsIsEnabled :: bool
  GitUntrackedFilesFn :: "(string \<Rightarrow> string list \<times> error option) option"

record Task =
  RepositoryRoot :: string
  Command :: "string list"
  Directory :: string

text \<open>
  The child command \<open>exec.Command("/proc/self/exe", baurRunSandboxedSubCmd)\<close> with
  what the builder calls set. \<open>LogPrefix\<close> and \<open>LogFn\<close> only direct the logging of
  the child's output and are left out.
\<close>

definition baurRunSandboxedSubCmd :: string where
  "baurRunSandboxedSubCmd = ''__run_sandboxed''"

record ChildCmd =
  cmd_Name :: string
  cmd_Args :: "string list"
  cmd_Directory :: string
  cmd_Env :: "string list"
  cmd_ExtraData :: bytes

record 'r RunResult =
  Result :: 'r
  StartTime :: nat
  StopTime :: nat

text \<open>
  The side effects of \<open>RunSandboxed\<close>, in the order they happen: the temporary task
  info files are created (\<open>createTaskInfoEnv\<close>), the sandboxed child is run, the
  temporary files are deleted (the deferred \<open>deleteTempTaskInfoFilesFn\<close>).
  \<open>RunSandboxed\<close> itself never commits a run.
\<close>

datatype effect =
    CreateTaskInfoEnv Task
  | RunChild ChildCmd
  | DeleteTempTaskInfoFiles

text \<open>
  The collaborators, which are not among the modelled files: \<open>createTaskInfoEnv\<close>
  (its environment and error), \<open>os.Environ\<close>, \<open>InputsToFSPaths\<close>, the type id gob
  uses, the run of the child command (its result and error) and the two readings of
  the clock.
\<close>

record ('i, 'r) runner_env =
  createTaskInfoEnv_ret :: "Task \<Rightarrow> string list \<times> error option"
  os_Environ :: "string list"
  InputsToFSPaths :: "'i list \<Rightarrow> string list"
  gob_type_id :: int
  Run_ret :: "ChildCmd \<Rightarrow> 'r \<times> error option"
  time_Now_start :: nat
  time_Now_stop :: nat

text \<open>
  What a call returns: the Go results \<open>(*RunResult, error)\<close>, or a panic
  (\<open>task.Command[0]\<close> on an empty command; a nil buffer that \<open>encodeCmdSb\<close> would
  return with a nil error, which it never does).
\<close>

datatype 'a returned = Returns "'a option" "error option" | Panics

definition untracked_check :: "TaskRunner \<Rightarrow> Task \<Rightarrow> error option" where
  "untracked_check t task =
     (case GitUntrackedFilesFn t of
        None \<Rightarrow> None
      | Some fn \<Rightarrow>
          (case fn (RepositoryRoot task) of
             (untracked, Some err) \<Rightarrow> Some err
           | (untracked, None) \<Rightarrow>
               if length untracked \<noteq> 0 then Some (ErrUntrackedGitFilesExist untracked)
               else None))"

text \<open>
  The part of \<open>RunSandboxed\<close> after \<open>createTaskInfoEnv\<close> succeeded with the
  environment \<open>tenv\<close>: its effects, between the creation and the deletion of the
  temporary files, and what it returns.
\<close>

definition RunSandboxed_child ::
  "('i, 'r) runner_env \<Rightarrow> Task \<Rightarrow> 'i list \<Rightarrow> string list \<Rightarrow>
   effect list \<times> 'r RunResult returned" where
  "RunSandboxed_child env task inputs tenv =
     (case Command task of
        [] \<Rightarrow> ([], Panics)
      | name # args \<Rightarrow>
          (let sbCmd = \<lparr>Name = name, Args = args, Dir = Directory task,
                        Env = os_Environ env @ tenv,
                        AllowedFSAccessPaths = InputsToFSPaths env inputs\<rparr>
           in case encodeCmdSb (gob_type_id env) sbCmd of
                (buf, Some err) \<Rightarrow>
                  ([], Returns None (Some (Errorf ''encoding CmdSandboxed failed: %w'' [] err)))
              | (None, None) \<Rightarrow> ([], Panics)
              | (Some extraData, None) \<Rightarrow>
                  (let child = \<lparr>cmd_Name = ''/proc/self/exe'',
                                cmd_Args = [baurRunSandboxedSubCmd],
                                cmd_Directory = Directory task,
                                cmd_Env = os_Environ env @ tenv,
                                cmd_ExtraData = extraData\<rparr>
                   in case Run_ret env child of
                        (execResult, Some err) \<Rightarrow> ([RunChild child], Returns None (Some err))
                      | (execResult, None) \<Rightarrow>
                          ([RunChild child],
                           Returns (Some \<lparr>Result = execResult,
                                          StartTime = time_Now_start env,
                                          StopTime = time_Now_stop env\<rparr>) None))))"

definition RunSandboxed ::
  "('i, 'r) runner_env \<Rightarrow> TaskRunner \<Rightarrow> Task \<Rightarrow> 'i list \<Rightarrow>
   effect list \<times> 'r RunResult returned" where
  "RunSandboxed env t task inputs =
     (if skipAfterError t \<and> SkipRunsIsEnabled t then ([], Returns None (Some ErrTaskRunSkipped))
      else case untracked_check t task of
        Some err \<Rightarrow> ([], Returns None (Some err))
      | None \<Rightarrow>
          (case createTaskInfoEnv_ret env task of
             (tenv, Some err) \<Rightarrow> ([CreateTaskInfoEnv task], Returns None (Some err))
           | (tenv, None) \<Rightarrow>
               (case RunSandboxed_child env task inputs tenv of
                  (effects, r) \<Rightarrow>
                    (CreateTaskInfoEnv task # effects @ [DeleteTempTaskInfoFiles], r))))"

text \<open>
  Concrete runners and a task for evaluation: the VCS reports one untracked file;
  \<open>runner_strict\<close> checks for untracked files, \<open>runner_skipping\<close> does so too but is
  skipping runs after an earlier error.
\<close>

definition git_one_untracked :: "string \<Rightarrow> string list \<times> error option" where
  "git_one_untracked root = ([''new.txt''], None)"

definition runner_strict :: TaskRunner where
  "runner_strict =
     \<lparr>skipAfterError = False, SkipRunsIsEnabled = False,
      GitUntrackedFilesFn = Some git_one_untracked\<rparr>"

definition runner_skipping :: TaskRunner where
  "runner_skipping =
     \<lparr>skipAfterError = True, SkipRunsIsEnabled = True,
      GitUntrackedFilesFn = Some git_one_untracked\<rparr>"

definition task_build :: Task where
  "task_build = \<lparr>RepositoryRoot = ''/repo'', Command = [''make''], Directory = ''/repo/app''\<rparr>"

definition env_plain :: "(string, int) runner_env" where
  "env_plain =
     \<lparr>createTaskInfoEnv_ret = (\<lambda>task. ([], None)),
      os_Environ = [''PATH=/usr/bin''],
      InputsToFSPaths = (\<lambda>inputs. inputs),
      gob_type_id = 65,
      Run_ret = (\<lambda>c. (0, None)),
      time_Now_start = 100,
      time_Now_stop = 200\<rparr>"

section \<open>Package postgres: the database connection\<close>

text \<open>
  Query arguments (\<open>any\<close> values) and the errors of the database driver.
  \<open>PgError code constraint\<close> is a \<open>*pgconn.PgError\<close> with its \<open>Code\<close> and
  \<open>ConstraintName\<close>; \<open>DbWrapped\<close> is an error of the driver that wraps another.
\<close>

datatype sqlarg =
    AString string
  | AInt int
  | ABool bool
  | ATime nat
  | AUint64 "64 word"
  | ABytes "string option"

datatype dberr =
    PgError string string
  | DbWrapped string dberr
  | DbOther string

text \<open>
  Errors the package returns. \<open>newQueryError\<close> is not among the modelled files; its
  result is the value \<open>QueryError query err args\<close>, which records its arguments.
\<close>

datatype pgerror =
    ErrExists
  | QueryError string dberr "sqlarg list"
  | PgErrorf string pgerror
  | PgErrorsNew string
  | ReadFailed string

text \<open>\<open>errors.As(err, &pgErr)\<close>: the first \<open>*pgconn.PgError\<close> in the chain of \<open>err\<close>.\<close>

fun errors_As_PgError :: "dberr \<Rightarrow> (string \<times> string) option" where
  "errors_As_PgError (PgError code constraint) = Some (code, constraint)"
| "errors_As_PgError (DbWrapped msg e) = errors_As_PgError e"
| "errors_As_PgError (DbOther msg) = None"

text \<open>
  The rows of a query: what \<open>Next\<close> and \<open>Scan\<close> give for each row in turn (the id, or
  the error of \<open>Scan\<close>), and the final \<open>rows.Err()\<close>.
\<close>

record rows =
  scans :: "(int \<times> dberr option) list"
  rows_Err :: "dberr option"

text \<open>
  The connection (\<open>dbConn\<close>, a \<open>pgx.Tx\<close>) is a parameter: each operation takes the
  statement, its arguments and the state of the database, and returns its Go
  results and the new state. \<open>db_QueryRow\<close> is \<open>QueryRow(..).Scan(&id)\<close>.
\<close>

record 'd dbConn =
  db_Query :: "string \<Rightarrow> sqlarg list \<Rightarrow> 'd \<Rightarrow> (rows \<times> dberr option) \<times> 'd"
  db_QueryRow :: "string \<Rightarrow> sqlarg list \<Rightarrow> 'd \<Rightarrow> (int \<times> dberr option) \<times> 'd"
  db_Exec :: "string \<Rightarrow> sqlarg list \<Rightarrow> 'd \<Rightarrow> dberr option \<times> 'd"

section \<open>Package postgres: building statements\<close>

text \<open>\<open>%d\<close> of \<open>fmt\<close> for a number that is not negative.\<close>

fun Sprintf_d :: "nat \<Rightarrow> string" where
  "Sprintf_d n =
     (if n < 10 then [char_of (48 + n)]
      else Sprintf_d (n div 10) @ [char_of (48 + n mod 10)])"

text \<open>
  \<open>queryValueStr\<close>; the arguments are lengths and positive literals at every call, so
  they are naturals. The parameter number of column \<open>j\<close> of pair \<open>i\<close> is
  \<open>1 + i * argsPerPair + j\<close>: \<open>argNr\<close> starts at 1 and is incremented once per column.
\<close>

definition queryValueStr :: "nat \<Rightarrow> nat \<Rightarrow> string" where
  "queryValueStr pairsCount argsPerPair =
     concat (map (\<lambda>i.
       (if i > 0 then '' '' else '''') @ ''('' @
       concat (map (\<lambda>j.
         ''$'' @ Sprintf_d (1 + i * argsPerPair + j) @
         (if int j < int argsPerPair - 1 then '', '' else ''''))
         [0..<argsPerPair]) @
       '')'' @
       (if int i < int pairsCount - 1 then '', '' else ''''))
       [0..<pairsCount])"

definition queryValuePairFirstConstStr :: "nat \<Rightarrow> string" where
  "queryValuePairFirstConstStr pairsCount =
     concat (map (\<lambda>i.
       ''($1, $'' @ Sprintf_d (2 + i) @ '')'' @
       (if int i < int pairsCount - 1 then '', '' else ''''))
       [0..<pairsCount])"

text \<open>
  \<open>scanIDs\<close>: appends the scanned ids to \<open>res\<close>, stops at the first \<open>Scan\<close> error,
  and returns \<open>rows.Err()\<close> at the end.
\<close>

fun scanIDs_loop :: "(int \<times> dberr option) list \<Rightarrow> dberr option \<Rightarrow> int list \<Rightarrow> int list \<times> dberr option" where
  "scanIDs_loop [] final res = (res, final)"
| "scanIDs_loop ((i, Some err) # rest) final res = (res, Some err)"
| "scanIDs_loop ((i, None) # rest) final res = scanIDs_loop rest final (res @ [i])"

definition scanIDs :: "rows \<Rightarrow> int list \<Rightarrow> int list \<times> dberr option" where
  "scanIDs rs res = scanIDs_loop (scans rs) (rows_Err rs) res"

section \<open>Package postgres: sorting the inputs\<close>

text \<open>
  \<open>strings.Compare\<close> and \<open>cmp.Compare\<close> on strings: Go compares strings byte by byte,
  which is the lexicographic order of \<open>char list\<close> over the order of bytes.
\<close>

definition strings_Compare :: "string \<Rightarrow> string \<Rightarrow> int" where
  "strings_Compare a b = (if a = b then 0 else if a < b then -1 else 1)"

definition cmp_Compare :: "string \<Rightarrow> string \<Rightarrow> int" where
  "cmp_Compare x y = (if x < y then -1 else if x > y then 1 else 0)"

text \<open>The \<open>less\<close> functions handed to \<open>sort.Slice\<close> and the \<open>cmp\<close> handed to \<open>slices.SortFunc\<close>.\<close>

definition less_Inputfiles :: "InputFile \<Rightarrow> InputFile \<Rightarrow> bool" where
  "less_Inputfiles a b =
     (let c = strings_Compare (InputFile.Path a) (InputFile.Path b)
      in if c = -1 then True
         else if c = 1 then False
         else strings_Compare (InputFile.Digest a) (InputFile.Digest b) = -1)"

definition less_InputStrings :: "InputString \<Rightarrow> InputString \<Rightarrow> bool" where
  "less_InputStrings a b =
     (let c = strings_Compare (InputString.String a) (InputString.String b)
      in if c = -1 then True
         else if c = 1 then False
         else strings_Compare (InputString.Digest a) (InputString.Digest b) = -1)"

definition less_InputEnvVars :: "InputEnvVar \<Rightarrow> InputEnvVar \<Rightarrow> bool" where
  "less_InputEnvVars a b =
     (if InputEnvVar.Name a < InputEnvVar.Name b then True
      else if InputEnvVar.Name a > InputEnvVar.Name b then False
      else InputEnvVar.Digest a < InputEnvVar.Digest b)"

definition cmp_InputTasks :: "InputTaskInfo \<Rightarrow> InputTaskInfo \<Rightarrow> int" where
  "cmp_InputTasks a b =
     (let res = cmp_Compare (InputTaskInfo.Name a) (InputTaskInfo.Name b)
      in if res \<noteq> 0 then res
         else cmp_Compare (InputTaskInfo.Digest a) (InputTaskInfo.Digest b))"

text \<open>
  \<open>sort.Slice\<close> and \<open>slices.SortFunc\<close> belong to Go's standard library and are not
  stable; the sorting algorithm is a parameter of the model, one for each element
  type. \<open>sorts srt less\<close> is what the library promises of it for a \<open>less\<close> that is a
  strict weak order: the result is a rearrangement of the input in which no element
  is less than an earlier one. \<open>slices.SortFunc\<close> sorts with \<open>cmp(a, b) < 0\<close> as
  \<open>less\<close>.
\<close>

type_synonym 'a sorter = "('a \<Rightarrow> 'a \<Rightarrow> bool) \<Rightarrow> 'a list \<Rightarrow> 'a list"

definition sorts :: "'a sorter \<Rightarrow> ('a \<Rightarrow> 'a \<Rightarrow> bool) \<Rightarrow> bool" where
  "sorts srt lt \<longleftrightarrow>
     (\<forall>xs. mset (srt lt xs) = mset xs \<and> sorted_wrt (\<lambda>a b. \<not> lt b a) (srt lt xs))"

record go_sort =
  sort_files :: "InputFile sorter"
  sort_strings :: "InputString sorter"
  sort_envvars :: "InputEnvVar sorter"
  sort_tasks :: "InputTaskInfo sorter"

definition clonedSortedInputfiles :: "go_sort \<Rightarrow> InputFile list \<Rightarrow> InputFile list" where
  "clonedSortedInputfiles g inputs = sort_files g less_Inputfiles inputs"

definition clonedSortedInputStrings :: "go_sort \<Rightarrow> InputString list \<Rightarrow> InputString list" where
  "clonedSortedInputStrings g inputs = sort_strings g less_InputStrings inputs"

definition clonedSortedInputEnvVars :: "go_sort \<Rightarrow> InputEnvVar list \<Rightarrow> InputEnvVar list" where
  "clonedSortedInputEnvVars g inputs = sort_envvars g less_InputEnvVars inputs"

definition clonedSortedInputTasks :: "go_sort \<Rightarrow> InputTaskInfo list \<Rightarrow> InputTaskInfo list" where
  "clonedSortedInputTasks g result = sort_tasks g (\<lambda>a b. cmp_InputTasks a b < 0) result"

section \<open>Package postgres: inserting inputs\<close>

text \<open>
  The statements are the string constants of \<open>insert.go\<close> with every run of white
  space written as one space.
\<close>

definition insertInputFiles_stmt1 :: string where
  "insertInputFiles_stmt1 = '' INSERT INTO input_file (path, digest) VALUES ''"

definition insertInputFiles_stmt2 :: string where
  "insertInputFiles_stmt2 =
     '' ON CONFLICT ON CONSTRAINT input_file_path_digest_uniq DO UPDATE SET id=input_file.id RETURNING id ''"

definition insertInputStrings_stmt1 :: string where
  "insertInputStrings_stmt1 = '' INSERT INTO input_string (string, digest) VALUES ''"

definition insertInputStrings_stmt2 :: string where
  "insertInputStrings_stmt2 =
     '' ON CONFLICT ON CONSTRAINT input_string_digest_uniq DO UPDATE SET id=input_string.id RETURNING id ''"

definition insertInputTask_stmt1 :: string where
  "insertInputTask_stmt1 = '' INSERT INTO input_task (name, digest) VALUES ''"

definition insertInputTask_stmt2 :: string where
  "insertInputTask_stmt2 =
     '' ON CONFLICT ON CONSTRAINT input_task_name_digest_uniq DO UPDATE SET id=input_task.id RETURNING id ''"

definition insertInputEnVars_stmt1 :: string where
  "insertInputEnVars_stmt1 = '' INSERT INTO input_env_var (name, digest) VALUES ''"

definition insertInputEnVars_stmt2 :: string where
  "insertInputEnVars_stmt2 =
     '' ON CONFLICT ON CONSTRAINT input_env_var_name_digest_uniq DO UPDATE SET id=input_env_var.id RETURNING id ''"

text \<open>
  The common part of the four \<open>insertInput...IfNotExist\<close> functions after the
  arguments are built: run the query and scan the ids.
\<close>

definition query_ids ::
  "'d dbConn \<Rightarrow> string \<Rightarrow> sqlarg list \<Rightarrow> 'd \<Rightarrow> (int list \<times> pgerror option) \<times> 'd" where
  "query_ids db query queryArgs s =
     (case db_Query db query queryArgs s of
        ((rs, Some err), s') \<Rightarrow> (([], Some (QueryError query err queryArgs)), s')
      | ((rs, None), s') \<Rightarrow>
          (case scanIDs rs [] of
             (ids, Some err) \<Rightarrow> (([], Some (QueryError query err queryArgs)), s')
           | (ids, None) \<Rightarrow> ((ids, None), s')))"

definition insertInputFiles_queryArgs :: "go_sort \<Rightarrow> InputFile list \<Rightarrow> sqlarg list" where
  "insertInputFiles_queryArgs g inputs =
     concat (map (\<lambda>i. [AString (InputFile.Path i), AString (InputFile.Digest i)])
       (clonedSortedInputfiles g inputs))"

definition insertInputFilesIfNotExist ::
  "go_sort \<Rightarrow> 'd dbConn \<Rightarrow> InputFile list \<Rightarrow> 'd \<Rightarrow> (int list \<times> pgerror option) \<times> 'd" where
  "insertInputFilesIfNotExist g db inputs s =
     (let stmtVals = queryValueStr (length (clonedSortedInputfiles g inputs)) 2;
          query = insertInputFiles_stmt1 @ stmtVals @ '' '' @ insertInputFiles_stmt2
      in query_ids db query (insertInputFiles_queryArgs g inputs) s)"

definition insertInputStrings_queryArgs :: "go_sort \<Rightarrow> InputString list \<Rightarrow> sqlarg list" where
  "insertInputStrings_queryArgs g inputs =
     concat (map (\<lambda>i. [AString (InputString.String i), AString (InputString.Digest i)])
       (clonedSortedInputStrings g inputs))"

definition insertInputStringsIfNotExist ::
  "go_sort \<Rightarrow> 'd dbConn \<Rightarrow> InputString list \<Rightarrow> 'd \<Rightarrow> (int list \<times> pgerror option) \<times> 'd" where
  "insertInputStringsIfNotExist g db inputs s =
     (let stmtVals = queryValueStr (length (clonedSortedInputStrings g inputs)) 2;
          query = insertInputStrings_stmt1 @ stmtVals @ '' '' @ insertInputStrings_stmt2
      in query_ids db query (insertInputStrings_queryArgs g inputs) s)"

definition insertInputTask_queryArgs :: "go_sort \<Rightarrow> InputTaskInfo list \<Rightarrow> sqlarg list" where
  "insertInputTask_queryArgs g inputs =
     concat (map (\<lambda>i. [AString (InputTaskInfo.Name i), AString (InputTaskInfo.Digest i)])
       (clonedSortedInputTasks g inputs))"

definition insertInputTaskIfNotExist ::
  "go_sort \<Rightarrow> 'd dbConn \<Rightarrow> InputTaskInfo list \<Rightarrow> 'd \<Rightarrow> (int list \<times> pgerror option) \<times> 'd" where
  "insertInputTaskIfNotExist g db inputs s =
     (let stmtVals = queryValueStr (length (clonedSortedInputTasks g inputs)) 2;
          query = insertInputTask_stmt1 @ stmtVals @ '' '' @ insertInputTask_stmt2
      in query_ids db query (insertInputTask_queryArgs g inputs) s)"

definition insertInputEnVars_queryArgs :: "go_sort \<Rightarrow> InputEnvVar list \<Rightarrow> sqlarg list" where
  "insertInputEnVars_queryArgs g inputs =
     concat (map (\<lambda>i. [AString (InputEnvVar.Name i), AString (InputEnvVar.Digest i)])
       (clonedSortedInputEnvVars g inputs))"

definition insertInputEnVarsIfNotExist ::
  "go_sort \<Rightarrow> 'd dbConn \<Rightarrow> InputEnvVar list \<Rightarrow> 'd \<Rightarrow> (int list \<times> pgerror option) \<times> 'd" where
  "insertInputEnVarsIfNotExist g db inputs s =
     (let stmtVals = queryValueStr (length (clonedSortedInputEnvVars g inputs)) 2;
          query = insertInputEnVars_stmt1 @ stmtVals @ '' '' @ insertInputEnVars_stmt2
      in query_ids db query (insertInputEnVars_queryArgs g inputs) s)"

text \<open>
  The junction tables. The second half of each \<open>insertTaskRunInput...IfNotExist\<close>
  function is the same: the pairs \<open>($1, $n)\<close> (built by
  \<open>queryValuePairFirstConstStr\<close> for strings and by a loop of the same body in the
  other three functions), the arguments \<open>taskRunID\<close> and the ids, and \<open>Exec\<close>.
\<close>

definition exec_junction ::
  "'d dbConn \<Rightarrow> string \<Rightarrow> int \<Rightarrow> int list \<Rightarrow> 'd \<Rightarrow> pgerror option \<times> 'd" where
  "exec_junction db stmt1 firstID ids s =
     (let stmtVals = queryValuePairFirstConstStr (length ids);
          query = stmt1 @ stmtVals;
          queryArgs = AInt firstID # map AInt ids
      in case db_Exec db query queryArgs s of
           (Some err, s') \<Rightarrow> (Some (QueryError query err queryArgs), s')
         | (None, s') \<Rightarrow> (None, s'))"

definition task_run_string_input_stmt1 :: string where
  "task_run_string_input_stmt1 =
     '' INSERT INTO task_run_string_input (task_run_id, input_string_id) VALUES ''"

definition task_run_file_input_stmt1 :: string where
  "task_run_file_input_stmt1 =
     '' INSERT INTO task_run_file_input (task_run_id, input_file_id) VALUES ''"

definition task_run_task_input_stmt1 :: string where
  "task_run_task_input_stmt1 =
     '' INSERT INTO task_run_task_input (task_run_id, input_task_id) VALUES ''"

definition task_run_env_var_input_stmt1 :: string where
  "task_run_env_var_input_stmt1 =
     '' INSERT INTO task_run_env_var_input (task_run_id, input_env_var_id) VALUES ''"

definition insertTaskRunInputStringsIfNotExist ::
  "go_sort \<Rightarrow> 'd dbConn \<Rightarrow> int \<Rightarrow> InputString list \<Rightarrow> 'd \<Rightarrow> pgerror option \<times> 'd" where
  "insertTaskRunInputStringsIfNotExist g db taskRunID inputStrings s =
     (if length inputStrings = 0 then (None, s)
      else case insertInputStringsIfNotExist g db inputStrings s of
        ((ids, Some err), s') \<Rightarrow> (Some err, s')
      | ((inputStringIDs, None), s') \<Rightarrow>
          exec_junction db task_run_string_input_stmt1 taskRunID inputStringIDs s')"

definition insertTaskRunInputFilesIfNotExist ::
  "go_sort \<Rightarrow> 'd dbConn \<Rightarrow> int \<Rightarrow> InputFile list \<Rightarrow> 'd \<Rightarrow> pgerror option \<times> 'd" where
  "insertTaskRunInputFilesIfNotExist g db taskRunID inputFiles s =
     (if length inputFiles = 0 then (None, s)
      else case insertInputFilesIfNotExist g db inputFiles s of
        ((ids, Some err), s') \<Rightarrow> (Some err, s')
      | ((inputIDs, None), s') \<Rightarrow>
          exec_junction db task_run_file_input_stmt1 taskRunID inputIDs s')"

definition insertTaskRunInputTasksIfNotExist ::
  "go_sort \<Rightarrow> 'd dbConn \<Rightarrow> int \<Rightarrow> InputTaskInfo list \<Rightarrow> 'd \<Rightarrow> pgerror option \<times> 'd" where
  "insertTaskRunInputTasksIfNotExist g db taskRunID inputs s =
     (if length inputs = 0 then (None, s)
      else case insertInputTaskIfNotExist g db inputs s of
        ((ids, Some err), s') \<Rightarrow> (Some err, s')
      | ((inputIDs, None), s') \<Rightarrow>
          exec_junction db task_run_task_input_stmt1 taskRunID inputIDs s')"

definition insertTaskRunInputEnvVarsIfNotExist ::
  "go_sort \<Rightarrow> 'd dbConn \<Rightarrow> int \<Rightarrow> InputEnvVar list \<Rightarrow> 'd \<Rightarrow> pgerror option \<times> 'd" where
  "insertTaskRunInputEnvVarsIfNotExist g db taskRunID inputEnvVars s =
     (if length inputEnvVars = 0 then (None, s)
      else case insertInputEnVarsIfNotExist g db inputEnvVars s of
        ((ids, Some err), s') \<Rightarrow> (Some err, s')
      | ((inputIDs, None), s') \<Rightarrow>
          exec_junction db task_run_env_var_input_stmt1 taskRunID inputIDs s')"

section \<open>Package postgres: outputs, the task run and releases\<close>

definition insertUploads_stmt1 :: string where
  "insertUploads_stmt1 =
     '' INSERT into upload (uri, method, start_timestamp, stop_timestamp) VALUES''"

definition insertUploads ::
  "'d dbConn \<Rightarrow> Upload list \<Rightarrow> 'd \<Rightarrow> (int list \<times> pgerror option) \<times> 'd" where
  "insertUploads db uploads s =
     (let stmtVals = queryValueStr (length uploads) 4;
          queryArgs = concat (map (\<lambda>u.
            [AString (URI u), AString (Method u), ATime (UploadStartTimestamp u),
             ATime (UploadStopTimestamp u)]) uploads);
          query = insertUploads_stmt1 @ stmtVals @ '' '' @ ''RETURNING id''
      in query_ids db query queryArgs s)"

definition insertOutput_query :: string where
  "insertOutput_query =
     '' INSERT INTO output (name, type, digest, size_bytes) VALUES($1, $2, $3, $4) ON CONFLICT ON CONSTRAINT output_name_type_digest_size_bytes_uniq DO UPDATE SET id=output.id RETURNING id ''"

definition insertOutputIfNotExist ::
  "'d dbConn \<Rightarrow> Output \<Rightarrow> 'd \<Rightarrow> (int \<times> pgerror option) \<times> 'd" where
  "insertOutputIfNotExist db output s =
     (let queryArgs = [AString (Output.Name output), AString (Type output),
                       AString (Output.Digest output), AUint64 (SizeBytes output)]
      in case db_QueryRow db insertOutput_query queryArgs s of
           ((i, Some err), s') \<Rightarrow> ((-1, Some (QueryError insertOutput_query err queryArgs)), s')
         | ((i, None), s') \<Rightarrow> ((i, None), s'))"

text \<open>
  The loop over the outputs of \<open>insertTaskOutputsIfNotExist\<close>: the records
  \<open>(outputID, uploadID)\<close> collected so far, or the first error.
\<close>

fun collect_taskOutputs ::
  "'d dbConn \<Rightarrow> Output list \<Rightarrow> (int \<times> int) list \<Rightarrow> 'd \<Rightarrow>
   ((int \<times> int) list \<times> pgerror option) \<times> 'd" where
  "collect_taskOutputs db [] records s = ((records, None), s)"
| "collect_taskOutputs db (output # outputs) records s =
     (case insertOutputIfNotExist db output s of
        ((outputID, Some err), s1) \<Rightarrow> ((records, Some err), s1)
      | ((outputID, None), s1) \<Rightarrow>
          (case insertUploads db (Uploads output) s1 of
             ((uploadIDs, Some err), s2) \<Rightarrow> ((records, Some err), s2)
           | ((uploadIDs, None), s2) \<Rightarrow>
               collect_taskOutputs db outputs
                 (records @ map (\<lambda>uploadID. (outputID, uploadID)) uploadIDs) s2))"

definition task_run_output_stmt1 :: string where
  "task_run_output_stmt1 =
     ''INSERT INTO task_run_output (task_run_id, output_id, upload_id) VALUES''"

definition insertTaskOutputsIfNotExist ::
  "'d dbConn \<Rightarrow> int \<Rightarrow> Output list \<Rightarrow> 'd \<Rightarrow> pgerror option \<times> 'd" where
  "insertTaskOutputsIfNotExist db taskRunID outputs s =
     (if length outputs = 0 then (None, s)
      else case collect_taskOutputs db outputs [] s of
        ((records, Some err), s1) \<Rightarrow> (Some err, s1)
      | ((records, None), s1) \<Rightarrow>
          (let stmtVals = queryValueStr (length records) 3;
               queryArgs = concat (map (\<lambda>r. [AInt taskRunID, AInt (fst r), AInt (snd r)]) records);
               query = task_run_output_stmt1 @ stmtVals
           in case db_Exec db query queryArgs s1 of
                (Some err, s2) \<Rightarrow> (Some (QueryError query err queryArgs), s2)
              | (None, s2) \<Rightarrow> (None, s2)))"

definition insertApp_query :: string where
  "insertApp_query =
     '' INSERT INTO application (name) VALUES ($1) ON CONFLICT ON CONSTRAINT application_name_uniq DO UPDATE SET id=application.id RETURNING id ''"

definition insertAppIfNotExist :: "'d dbConn \<Rightarrow> string \<Rightarrow> 'd \<Rightarrow> (int \<times> pgerror option) \<times> 'd" where
  "insertAppIfNotExist db appName s =
     (case db_QueryRow db insertApp_query [AString appName] s of
        ((i, Some err), s') \<Rightarrow> ((-1, Some (QueryError insertApp_query err [AString appName])), s')
      | ((i, None), s') \<Rightarrow> ((i, None), s'))"

definition insertTask_query :: string where
  "insertTask_query =
     '' INSERT INTO task (name, application_id) VALUES ($1, $2) ON CONFLICT ON CONSTRAINT task_name_application_id_uniq DO UPDATE SET id=task.id RETURNING id ''"

definition insertTaskIfNotExist ::
  "'d dbConn \<Rightarrow> string \<Rightarrow> string \<Rightarrow> 'd \<Rightarrow> (int \<times> pgerror option) \<times> 'd" where
  "insertTaskIfNotExist db appName taskName s =
     (case insertAppIfNotExist db appName s of
        ((a, Some err), s1) \<Rightarrow> ((-1, Some err), s1)
      | ((appID, None), s1) \<Rightarrow>
          (case db_QueryRow db insertTask_query [AString taskName, AInt appID] s1 of
             ((i, Some err), s2) \<Rightarrow>
               ((-1, Some (QueryError insertTask_query err [AString appName, AString taskName])), s2)
           | ((i, None), s2) \<Rightarrow> ((i, None), s2)))"

definition insertVCS_query :: string where
  "insertVCS_query =
     '' INSERT INTO vcs (revision, dirty) VALUES ($1, $2) ON CONFLICT ON CONSTRAINT vcs_revision_dirty_uniq DO UPDATE SET id=vcs.id RETURNING id ''"

definition insertVCSIfNotExist ::
  "'d dbConn \<Rightarrow> string \<Rightarrow> bool \<Rightarrow> 'd \<Rightarrow> (int \<times> pgerror option) \<times> 'd" where
  "insertVCSIfNotExist db revision isDirty s =
     (case db_QueryRow db insertVCS_query [AString revision, ABool isDirty] s of
        ((i, Some err), s') \<Rightarrow>
          ((-1, Some (QueryError insertVCS_query err [AString revision, ABool isDirty])), s')
      | ((i, None), s') \<Rightarrow> ((i, None), s'))"

definition saveTaskRun_query :: string where
  "saveTaskRun_query =
     '' INSERT INTO task_run (vcs_id, task_id, total_input_digest, start_timestamp, stop_timestamp, result) VALUES($1, $2, $3, $4, $5, $6) RETURNING ID ''"

text \<open>The five inserts at the end of \<open>saveTaskRun\<close>, each returning at its first error.\<close>

definition saveTaskRun_inserts ::
  "go_sort \<Rightarrow> 'd dbConn \<Rightarrow> int \<Rightarrow> TaskRunFull \<Rightarrow> 'd \<Rightarrow> pgerror option \<times> 'd" where
  "saveTaskRun_inserts g db taskRunID taskRun s =
     (case insertTaskRunInputStringsIfNotExist g db taskRunID (Strings (Inputs taskRun)) s of
        (Some err, s1) \<Rightarrow> (Some err, s1)
      | (None, s1) \<Rightarrow>
     (case insertTaskRunInputFilesIfNotExist g db taskRunID (Files (Inputs taskRun)) s1 of
        (Some err, s2) \<Rightarrow> (Some err, s2)
      | (None, s2) \<Rightarrow>
     (case insertTaskRunInputEnvVarsIfNotExist g db taskRunID
             (EnvironmentVariables (Inputs taskRun)) s2 of
        (Some err, s3) \<Rightarrow> (Some err, s3)
      | (None, s3) \<Rightarrow>
     (case insertTaskRunInputTasksIfNotExist g db taskRunID (TaskInfo (Inputs taskRun)) s3 of
        (Some err, s4) \<Rightarrow> (Some err, s4)
      | (None, s4) \<Rightarrow> insertTaskOutputsIfNotExist db taskRunID (Outputs taskRun) s4))))"

definition saveTaskRun ::
  "go_sort \<Rightarrow> 'd dbConn \<Rightarrow> TaskRunFull \<Rightarrow> 'd \<Rightarrow> (int \<times> pgerror option) \<times> 'd" where
  "saveTaskRun g tx taskRun s =
     (case insertVCSIfNotExist tx (VCSRevision taskRun) (VCSIsDirty taskRun) s of
        ((v, Some err), s1) \<Rightarrow> ((-1, Some (PgErrorf ''storing vcs record failed: %w'' err)), s1)
      | ((vcsID, None), s1) \<Rightarrow>
     (case insertTaskIfNotExist tx (ApplicationName taskRun) (TaskName taskRun) s1 of
        ((t, Some err), s2) \<Rightarrow> ((-1, Some (PgErrorf ''storing task record failed: %w'' err)), s2)
      | ((taskID, None), s2) \<Rightarrow>
          (let queryArgs = [AInt vcsID, AInt taskID, AString (TotalInputDigest taskRun),
                            ATime (StartTimestamp taskRun), ATime (StopTimestamp taskRun),
                            AString (TaskRunFull.Result taskRun)]
           in case db_QueryRow tx saveTaskRun_query queryArgs s2 of
                ((i, Some err), s3) \<Rightarrow>
                  ((-1, Some (QueryError saveTaskRun_query err queryArgs)), s3)
              | ((taskRunID, None), s3) \<Rightarrow>
                  (case saveTaskRun_inserts g tx taskRunID taskRun s3 of
                     (Some err, s4) \<Rightarrow> ((-1, Some err), s4)
                   | (None, s4) \<Rightarrow> ((taskRunID, None), s4)))))"

text \<open>
  \<open>BeginFunc\<close> of \<open>pgx\<close> for a database on which \<open>BEGIN\<close>, \<open>COMMIT\<close> and \<open>ROLLBACK\<close>
  succeed: when the function returns an error the transaction is rolled back, which
  restores the state the transaction started from; otherwise it is committed.
\<close>

definition BeginFunc :: "('d \<Rightarrow> pgerror option \<times> 'd) \<Rightarrow> 'd \<Rightarrow> pgerror option \<times> 'd" where
  "BeginFunc f s =
     (case f s of
        (Some err, s') \<Rightarrow> (Some err, s)
      | (None, s') \<Rightarrow> (None, s'))"

text \<open>
  \<open>SaveTaskRun\<close> returns the variable \<open>id\<close> that the function literal assigns the
  first result of \<open>saveTaskRun\<close> to. Go does not fix whether \<open>id\<close> is read before
  or after the call of \<open>BeginFunc\<close> in \<open>return id, c.db.BeginFunc(..)\<close>; the model
  returns the value after the call, as the Go compiler does.
\<close>

definition SaveTaskRun ::
  "go_sort \<Rightarrow> 'd dbConn \<Rightarrow> TaskRunFull \<Rightarrow> 'd \<Rightarrow> (int \<times> pgerror option) \<times> 'd" where
  "SaveTaskRun g db taskRun s =
     (case BeginFunc (\<lambda>s0. case saveTaskRun g db taskRun s0 of ((i, err), s1) \<Rightarrow> (err, s1)) s of
        (err, s') \<Rightarrow> ((fst (fst (saveTaskRun g db taskRun s)), err), s'))"

definition insertRelease_query :: string where
  "insertRelease_query =
     '' INSERT INTO release (name, created_at, metadata) VALUES($1, $2, $3) RETURNING id ''"

text \<open>
  \<open>insertRelease\<close>. The \<open>io.Reader\<close> \<open>metadata\<close> is \<open>None\<close> when nil and otherwise what
  \<open>io.ReadAll\<close> returns for it, the data and the error.
\<close>

definition insertRelease ::
  "'d dbConn \<Rightarrow> string \<Rightarrow> nat \<Rightarrow> (string \<times> string option) option \<Rightarrow> 'd \<Rightarrow>
   (int \<times> pgerror option) \<times> 'd" where
  "insertRelease tx name createdAt metadata s =
     (case (case metadata of
              None \<Rightarrow> (None, None)
            | Some (bs, rerr) \<Rightarrow> (Some bs, rerr)) of
        (d, Some rerr) \<Rightarrow> ((-1, Some (PgErrorf ''reading metadata failed: %w'' (ReadFailed rerr))), s)
      | (d, None) \<Rightarrow>
          (case db_QueryRow tx insertRelease_query [AString name, ATime createdAt, ABytes d] s of
             ((i, Some err), s') \<Rightarrow>
               (if (case errors_As_PgError err of
                      Some (code, constraint) \<Rightarrow>
                        code = ''23505'' \<and> constraint = ''release_name_uniq''
                    | None \<Rightarrow> False)
                then ((-1, Some ErrExists), s')
                else if metadata = None
                then ((-1, Some (QueryError insertRelease_query err [AString name])), s')
                else ((-1, Some (QueryError insertRelease_query err
                        [AString name, AString ''<OMITTED-RELEASE-METADATA>''])), s'))
           | ((releaseID, None), s') \<Rightarrow> ((releaseID, None), s')))"

definition insertReleaseTaskRun_stmt1 :: string where
  "insertReleaseTaskRun_stmt1 = '' INSERT INTO release_task_run (release_id, task_run_id) VALUES''"

definition insertReleaseTaskRun ::
  "'d dbConn \<Rightarrow> int \<Rightarrow> int list \<Rightarrow> 'd \<Rightarrow> pgerror option \<times> 'd" where
  "insertReleaseTaskRun tx releaseID taskRunIDs s =
     (if length taskRunIDs = 0 then (Some (PgErrorsNew ''no task run IDs were specified''), s)
      else exec_junction tx insertReleaseTaskRun_stmt1 releaseID taskRunIDs s)"

definition CreateRelease ::
  "'d dbConn \<Rightarrow> string \<Rightarrow> nat \<Rightarrow> int list \<Rightarrow> (string \<times> string option) option \<Rightarrow> 'd \<Rightarrow>
   pgerror option \<times> 'd" where
  "CreateRelease db releaseName createdAt taskRunIDs metadata s =
     BeginFunc (\<lambda>s0.
       case insertRelease db releaseName createdAt metadata s0 of
         ((r, Some err), s1) \<Rightarrow> (Some err, s1)
       | ((releaseID, None), s1) \<Rightarrow> insertReleaseTaskRun db releaseID taskRunIDs s1) s"

section \<open>Databases for stating and evaluating properties\<close>

text \<open>
  \<open>logged db\<close> is the connection \<open>db\<close> that also records every statement it is
  handed, with its arguments, in a log kept beside the state.
\<close>

definition logged :: "'d dbConn \<Rightarrow> ('d \<times> (string \<times> sqlarg list) list) dbConn" where
  "logged db =
     \<lparr>db_Query = (\<lambda>q args (s, lg).
        case db_Query db q args s of (r, s') \<Rightarrow> (r, (s', lg @ [(q, args)]))),
      db_QueryRow = (\<lambda>q args (s, lg).
        case db_QueryRow db q args s of (r, s') \<Rightarrow> (r, (s', lg @ [(q, args)]))),
      db_Exec = (\<lambda>q args (s, lg).
        case db_Exec db q args s of (r, s') \<Rightarrow> (r, (s', lg @ [(q, args)])))\<rparr>"

text \<open>
  A database for concrete runs of the release functions, with the two tables their
  statements write: \<open>release(id, name, created_at, metadata)\<close> and
  \<open>release_task_run(release_id, task_run_id)\<close>. It answers the insert of a release
  whose name is already stored as PostgreSQL answers the violation of a unique
  constraint named \<open>release_name_uniq\<close> (SQLSTATE 23505), changing nothing;
  otherwise the row gets the next id. Other statements are refused.
\<close>

record release_row =
  release_id :: int
  release_name :: string
  created_at :: nat
  metadata_of :: "string option"

record registry =
  release_table :: "release_row list"
  release_task_run_table :: "(int \<times> int) list"

fun int_args :: "sqlarg list \<Rightarrow> int list" where
  "int_args [] = []"
| "int_args (AInt i # as) = i # int_args as"
| "int_args (a # as) = int_args as"

definition registry_QueryRow ::
  "string \<Rightarrow> sqlarg list \<Rightarrow> registry \<Rightarrow> (int \<times> dberr option) \<times> registry" where
  "registry_QueryRow q args s =
     (case args of
        [AString name, ATime t, ABytes d] \<Rightarrow>
          (if q \<noteq> insertRelease_query then ((0, Some (DbOther ''unknown statement'')), s)
           else if name \<in> set (map release_name (release_table s))
           then ((0, Some (PgError ''23505'' ''release_name_uniq'')), s)
           else ((1 + int (length (release_table s)), None),
                 s\<lparr>release_table := release_table s @
                     [\<lparr>release_id = 1 + int (length (release_table s)), release_name = name,
                       created_at = t, metadata_of = d\<rparr>]\<rparr>))
      | _ \<Rightarrow> ((0, Some (DbOther ''unknown statement'')), s))"

definition registry_Exec ::
  "string \<Rightarrow> sqlarg list \<Rightarrow> registry \<Rightarrow> dberr option \<times> registry" where
  "registry_Exec q args s =
     (case args of
        AInt releaseID # ids \<Rightarrow>
          (if take (length insertReleaseTaskRun_stmt1) q = insertReleaseTaskRun_stmt1
           then (None, s\<lparr>release_task_run_table := release_task_run_table s @
                          map (\<lambda>i. (releaseID, i)) (int_args ids)\<rparr>)
           else (Some (DbOther ''unknown statement''), s))
      | _ \<Rightarrow> (Some (DbOther ''unknown statement''), s))"

definition registry_db :: "registry dbConn" where
  "registry_db =
     \<lparr>db_Query = (\<lambda>q args s.
        ((\<lparr>scans = [], rows_Err = None\<rparr>, Some (DbOther ''unknown statement'')), s)),
      db_QueryRow = registry_QueryRow,
      db_Exec = registry_Exec\<rparr>"

definition registry_empty :: registry where
  "registry_empty = \<lparr>release_table = [], release_task_run_table = []\<rparr>"

definition registry_v1 :: registry where
  "registry_v1 =
     \<lparr>release_table =
        [\<lparr>release_id = 1, release_name = ''v1'', created_at = 10, metadata_of = None\<rparr>],
      release_task_run_table = [(1, 7)]\<rparr>"

text \<open>
  A sorting algorithm that keeps the promise \<open>sorts\<close>, for evaluation: insertion
  sort with the given \<open>less\<close>.
\<close>

fun insert_by :: "('a \<Rightarrow> 'a \<Rightarrow> bool) \<Rightarrow> 'a \<Rightarrow> 'a list \<Rightarrow> 'a list" where
  "insert_by lt x [] = [x]"
| "insert_by lt x (y # ys) = (if lt y x then y # insert_by lt x ys else x # y # ys)"

definition insertion_sort :: "'a sorter" where
  "insertion_sort lt xs = foldr (insert_by lt) xs []"

definition go_insertion_sort :: go_sort where
  "go_insertion_sort =
     \<lparr>sort_files = insertion_sort, sort_strings = insertion_sort,
      sort_envvars = insertion_sort, sort_tasks = insertion_sort\<rparr>"

text \<open>
  A row of a bulk statement: the two arguments of one pair of \<open>VALUES\<close>. \<open>rows2\<close>
  cuts an argument list into its pairs; \<open>row_le\<close> orders rows by the first
  component and, for equal first components, by the second.
\<close>

fun rows2 :: "'a list \<Rightarrow> ('a \<times> 'a) list" where
  "rows2 (a # b # more_args) = (a, b) # rows2 more_args"
| "rows2 other = []"

fun arg_string :: "sqlarg \<Rightarrow> string" where
  "arg_string (AString x) = x"
| "arg_string a = []"

definition string_rows :: "sqlarg list \<Rightarrow> (string \<times> string) list" where
  "string_rows args = map (\<lambda>r. (arg_string (fst r), arg_string (snd r))) (rows2 args)"

definition row_le :: "string \<times> string \<Rightarrow> string \<times> string \<Rightarrow> bool" where
  "row_le r r' \<longleftrightarrow> fst r < fst r' \<or> (fst r = fst r' \<and> snd r \<le> snd r')"

text \<open>
  A connection for concrete runs that accepts every statement: its state counts the
  statements executed; \<open>QueryRow\<close> returns the count as the new id and \<open>Query\<close> one
  id for every two arguments.
\<close>

definition db_serial :: "int dbConn" where
  "db_serial =
     \<lparr>db_Query = (\<lambda>q args n.
        ((\<lparr>scans = map (\<lambda>i. (n + int i, None)) [0..<length args div 2], rows_Err = None\<rparr>,
          None), n + 1)),
      db_QueryRow = (\<lambda>q args n. ((n + 1, None), n + 1)),
      db_Exec = (\<lambda>q args n. (None, n + 1))\<rparr>"

text \<open>A task run without inputs and outputs, and one with one input string.\<close>

definition taskrun_empty :: TaskRunFull where
  "taskrun_empty =
     \<lparr>ApplicationName = ''app'', TaskName = ''build'', VCSRevision = ''abc'', VCSIsDirty = False,
      TotalInputDigest = ''sha384:00'', StartTimestamp = 1, StopTimestamp = 2,
      Result = ''success'',
      Inputs = \<lparr>Files = [], Strings = [], EnvironmentVariables = [], TaskInfo = []\<rparr>,
      Outputs = []\<rparr>"

definition taskrun_one_string :: TaskRunFull where
  "taskrun_one_string =
     taskrun_empty\<lparr>Inputs :=
       \<lparr>Files = [], Strings = [\<lparr>String = ''x'', Digest = ''sha384:01''\<rparr>],
        EnvironmentVariables = [], TaskInfo = []\<rparr>\<rparr>"

section \<open>Verified properties: the error mapping\<close>

lemma errnoToError_zero: "errnoToError 0 = None"
  by (simp add: errnoToError_def)

lemma errnoToError_ENOSYS: "errnoToError ENOSYS = Some ErrLandLockNotSupported"
  by (simp add: errnoToError_def errors_Is_Errno_def ENOSYS_def EOPNOTSUPP_def)

lemma errnoToError_EOPNOTSUPP: "errnoToError EOPNOTSUPP = Some ErrLandlockDisabled"
  by (simp add: errnoToError_def errors_Is_Errno_def EOPNOTSUPP_def)

lemma errnoToError_other:
  "e \<noteq> 0 \<Longrightarrow> e \<noteq> ENOSYS \<Longrightarrow> e \<noteq> EOPNOTSUPP \<Longrightarrow> errnoToError e = Some (Errno e)"
  by (simp add: errnoToError_def errors_Is_Errno_def)

lemma Version_result:
  "Version os h =
     ([Version_call],
      (if snd (Syscall_ret os (h @ [Version_call])) \<noteq> 0 then -1
       else sint (fst (Syscall_ret os (h @ [Version_call])))),
      errnoToError (snd (Syscall_ret os (h @ [Version_call]))))"
  by (simp add: Version_def Let_def errnoToError_zero split: prod.splits)

lemma NewFSRuleset_result:
  "NewFSRuleset os h =
     ([NewFSRuleset_call],
      (if snd (Syscall_ret os (h @ [NewFSRuleset_call])) \<noteq> 0 then None
       else Some \<lparr>filedescriptor = fst (Syscall_ret os (h @ [NewFSRuleset_call]))\<rparr>),
      errnoToError (snd (Syscall_ret os (h @ [NewFSRuleset_call]))))"
  by (simp add: NewFSRuleset_def Let_def errnoToError_zero split: prod.splits)

text \<open>
  Claim C7. \<open>errnoToError\<close> sends \<open>ENOSYS\<close> to \<open>ErrLandLockNotSupported\<close> (the kernel
  has no Landlock API), \<open>EOPNOTSUPP\<close> to \<open>ErrLandlockDisabled\<close> (disabled at boot)
  and zero to \<open>nil\<close>, and \<open>NewFSRuleset\<close> reports these failure modes: on a kernel
  without the Landlock system calls its call of \<open>landlock_create_ruleset\<close>
  (number 444) fails with \<open>ENOSYS\<close> and it returns \<open>ErrLandLockNotSupported\<close>.
  \<open>Version\<close> does not: the system call it makes has the number 1, the value of the
  flag \<open>LANDLOCK_CREATE_RULESET_VERSION\<close>, with the arguments \<open>(0, 0, 0)\<close>; it is not
  \<open>landlock_create_ruleset\<close> (444) with that flag. On the same kernel \<open>Version\<close>
  returns version 0 and no error, not \<open>ErrLandLockNotSupported\<close>.
\<close>

theorem Version_trap_number:
  "errnoToError ENOSYS = Some ErrLandLockNotSupported \<and>
   errnoToError EOPNOTSUPP = Some ErrLandlockDisabled \<and>
   errnoToError 0 = None \<and>
   errnoToError 13 = Some (Errno 13) \<and>
   SYS_LANDLOCK_CREATE_RULESET = 444 \<and>
   Version_call = Syscall 1 [Val 0, Val 0, Val 0] \<and>
   Version kernel_without_landlock [] = ([Syscall 1 [Val 0, Val 0, Val 0]], 0, None) \<and>
   NewFSRuleset kernel_without_landlock [] =
     ([Syscall 444 [RulesetAttrPtr 0xC, Val 24, Val 0]], None, Some ErrLandLockNotSupported)"
proof -
  have "errnoToError 13 = Some (Errno 13)"
    by (simp add: errnoToError_other ENOSYS_def EOPNOTSUPP_def)
  moreover have "SYS_LANDLOCK_CREATE_RULESET = 444"
    by (simp add: SYS_LANDLOCK_CREATE_RULESET_def)
  moreover have v: "Version_call = Syscall 1 [Val 0, Val 0, Val 0]"
    by (simp add: Version_call_def LANDLOCK_CREATE_RULESET_VERSION_def)
  moreover have "Version kernel_without_landlock [] = ([Syscall 1 [Val 0, Val 0, Val 0]], 0, None)"
    unfolding Version_result v
    by (simp add: kernel_without_landlock_def errnoToError_zero)
  moreover have n: "NewFSRuleset_call = Syscall 444 [RulesetAttrPtr 0xC, Val 24, Val 0]"
    by (simp add: NewFSRuleset_call_def SYS_LANDLOCK_CREATE_RULESET_def version_def
        fsRights_def LANDLOCK_ACCESS_FS_READ_FILE_def LANDLOCK_ACCESS_FS_READ_DIR_def)
  have "NewFSRuleset kernel_without_landlock [] =
     ([Syscall 444 [RulesetAttrPtr 0xC, Val 24, Val 0]], None, Some ErrLandLockNotSupported)"
    unfolding NewFSRuleset_result n
    by (simp add: kernel_without_landlock_def errnoToError_ENOSYS) (simp add: ENOSYS_def)
  ultimately show ?thesis
    using errnoToError_ENOSYS errnoToError_EOPNOTSUPP errnoToError_zero by blast
qed

section \<open>Verified properties: the order of calls of Allow, Restrict and Exec\<close>

lemma all_ok_append: "all_ok os h (xs @ ys) = (all_ok os h xs \<and> all_ok os (h @ xs) ys)"
  by (induction xs arbitrary: h) auto

lemma step_of_calls:
  "step_of NewFSRuleset_call = CreateRuleset"
  "step_of (Allow_rule_call rs perms f) = AddRule"
  "step_of Restrict_prctl_call = NoNewPrivs"
  "step_of (Restrict_self_call rs) = RestrictSelf"
  by (simp_all add: NewFSRuleset_call_def Allow_rule_call_def Restrict_prctl_call_def
      Restrict_self_call_def SYS_LANDLOCK_CREATE_RULESET_def SYS_LANDLOCK_ADD_RULE_def
      SYS_LANDLOCK_RESTRICT_SELF_def)

lemma is_Execve_calls:
  "\<not> is_Execve NewFSRuleset_call"
  "\<not> is_Execve (Allow_rule_call rs perms f)"
  "\<not> is_Execve Restrict_prctl_call"
  "\<not> is_Execve (Restrict_self_call rs)"
  by (simp_all add: NewFSRuleset_call_def Allow_rule_call_def Restrict_prctl_call_def
      Restrict_self_call_def)

lemma call_ok_calls:
  "call_ok os h NewFSRuleset_call = (snd (Syscall_ret os (h @ [NewFSRuleset_call])) = 0)"
  "call_ok os h (Allow_rule_call rs perms f) =
     (snd (Syscall_ret os (h @ [Allow_rule_call rs perms f])) = 0)"
  "call_ok os h Restrict_prctl_call = (Prctl_ret os (h @ [Restrict_prctl_call]) = None)"
  "call_ok os h (Restrict_self_call rs) =
     (snd (Syscall_ret os (h @ [Restrict_self_call rs])) = 0)"
  by (simp_all add: NewFSRuleset_call_def Allow_rule_call_def Restrict_prctl_call_def
      Restrict_self_call_def)

lemma errnoToError_None_iff: "errnoToError e = None \<longleftrightarrow> e = 0"
  by (simp add: errnoToError_def errors_Is_Errno_def)

lemma Allow_trace:
  assumes "Allow os h rs p = (cs, r)"
  shows "prefix (map step_of cs) (Allow_steps p)"
    and "(r = None) = all_ok os h cs"
    and "r = None \<longrightarrow> map step_of cs = Allow_steps p"
    and "\<forall>x\<in>set cs. \<not> is_Execve x"
  using assms
  by (auto simp: Allow_def accessRights_def Allow_steps_def Let_def errnoToError_None_iff
      all_ok_append step_of_calls is_Execve_calls call_ok_calls
      split: prod.splits option.splits if_splits)

lemma Restrict_result:
  "Restrict os h rs =
     (case Prctl_ret os (h @ [Restrict_prctl_call]) of
        Some err \<Rightarrow> ([Restrict_prctl_call], Some (Errorf ''prctl failed: %w'' [] err))
      | None \<Rightarrow>
          ([Restrict_prctl_call, Restrict_self_call rs],
           errnoToError (snd (Syscall_ret os (h @ [Restrict_prctl_call, Restrict_self_call rs])))))"
  by (simp add: Restrict_def Let_def split: prod.splits option.splits)

lemma Restrict_trace:
  assumes "Restrict os h rs = (cs, r)"
  shows "prefix (map step_of cs) [NoNewPrivs, RestrictSelf]"
    and "(r = None) = all_ok os h cs"
    and "r = None \<longrightarrow> map step_of cs = [NoNewPrivs, RestrictSelf]"
    and "\<forall>x\<in>set cs. \<not> is_Execve x"
proof -
  show "prefix (map step_of cs) [NoNewPrivs, RestrictSelf]"
    using assms unfolding Restrict_result
    by (auto simp: step_of_calls split: option.splits)
  show "(r = None) = all_ok os h cs"
    using assms unfolding Restrict_result
    by (auto simp: call_ok_calls errnoToError_None_iff split: option.splits)
  show "r = None \<longrightarrow> map step_of cs = [NoNewPrivs, RestrictSelf]"
    using assms unfolding Restrict_result
    by (auto simp: step_of_calls split: option.splits)
  show "\<forall>x\<in>set cs. \<not> is_Execve x"
    using assms unfolding Restrict_result
    by (auto simp: is_Execve_calls split: option.splits)
qed


lemma follows_fail_append:
  assumes "follows os h S1 c1 False"
  shows "follows os h (S1 @ S2) c1 False"
  using assms by (auto simp: follows_def prefix_prefix)

lemma follows_ok_append:
  assumes "follows os h S1 c1 True" and "follows os (h @ c1) S2 c2 ok"
  shows "follows os h (S1 @ S2) (c1 @ c2) ok"
  using assms by (auto simp: follows_def all_ok_append)

lemma follows_Allow: "Allow os h rs p = (cs, r) \<Longrightarrow> follows os h (Allow_steps p) cs (r = None)"
  using Allow_trace[of os h rs p cs r] by (simp add: follows_def)

lemma follows_Restrict:
  "Restrict os h rs = (cs, r) \<Longrightarrow> follows os h [NoNewPrivs, RestrictSelf] cs (r = None)"
  using Restrict_trace[of os h rs cs r] by (simp add: follows_def)

lemma follows_Exec_allow_paths:
  "Exec_allow_paths os h rs ps = (cs, r) \<Longrightarrow>
     follows os h (concat (map Allow_steps ps)) cs (r = None)"
proof (induction ps arbitrary: h cs r)
  case Nil
  then show ?case by (simp add: follows_def)
next
  case (Cons p ps)
  obtain c1 r1 where a: "Allow os h rs p = (c1, r1)" by (cases "Allow os h rs p")
  have f1: "follows os h (Allow_steps p) c1 (r1 = None)" by (rule follows_Allow[OF a])
  show ?case
  proof (cases r1)
    case (Some e)
    with Cons.prems a have "cs = c1" and "r \<noteq> None" by auto
    moreover from f1 Some have "follows os h (Allow_steps p @ concat (map Allow_steps ps)) c1 False"
      by (simp add: follows_fail_append)
    ultimately show ?thesis by auto
  next
    case None
    obtain c2 r2 where b: "Exec_allow_paths os (h @ c1) rs ps = (c2, r2)"
      by (cases "Exec_allow_paths os (h @ c1) rs ps")
    from Cons.prems a None b have "cs = c1 @ c2" and "r = r2" by auto
    moreover from f1 None Cons.IH[OF b]
    have "follows os h (Allow_steps p @ concat (map Allow_steps ps)) (c1 @ c2) (r2 = None)"
      by (simp add: follows_ok_append)
    ultimately show ?thesis by simp
  qed
qed

lemma follows_NewFSRuleset:
  "NewFSRuleset os h = (cs, rso, err) \<Longrightarrow>
     follows os h [CreateRuleset] cs (err = None) \<and> (err = None \<longrightarrow> rso \<noteq> None)"
  unfolding NewFSRuleset_result
  by (auto simp: follows_def step_of_calls is_Execve_calls call_ok_calls errnoToError_None_iff)

lemma Exec_cases:
  assumes "Exec os h c = (cs, out)"
  shows "(\<exists>pre. cs = pre @ [Execve (Name c) (Args c) (Env c)] \<and>
            follows os h (Exec_prepare_steps c) pre True \<and>
            out = (case Exec_ret os (h @ cs) of
                     None \<Rightarrow> ImageReplaced
                   | Some e \<Rightarrow> Returned (Some (Errorf ''exec failed: %w'' [] e)))) \<or>
         (follows os h (Exec_prepare_steps c) cs False \<and> (\<exists>e. out = Returned (Some e)))"
proof -
  let ?A = "concat (map Allow_steps (AllowedFSAccessPaths c))"
  let ?R = "[NoNewPrivs, RestrictSelf]"
  let ?D = "[ChangeDir (Dir c)]"
  have steps: "Exec_prepare_steps c = [CreateRuleset] @ ?A @ ?R @ ?D"
    by (simp add: Exec_prepare_steps_def)
  obtain c0 rso err where n: "NewFSRuleset os h = (c0, rso, err)"
    by (cases "NewFSRuleset os h") auto
  note f0 = follows_NewFSRuleset[OF n]
  show ?thesis
  proof (cases err)
    case (Some e)
    with assms n have "cs = c0" and "\<exists>e. out = Returned (Some e)"
      by (auto simp: Exec_def)
    moreover from f0 Some have "follows os h (Exec_prepare_steps c) c0 False"
      unfolding steps by (simp add: follows_fail_append del: append.simps)
    ultimately show ?thesis by simp
  next
    case None
    with f0 obtain rs where rs: "rso = Some rs" by auto
    from f0 None have g0: "follows os h [CreateRuleset] c0 True" by simp
    obtain c1 r1 where a: "Exec_allow_paths os (h @ c0) rs (AllowedFSAccessPaths c) = (c1, r1)"
      by (cases "Exec_allow_paths os (h @ c0) rs (AllowedFSAccessPaths c)")
    note f1 = follows_Exec_allow_paths[OF a]
    show ?thesis
    proof (cases r1)
      case (Some e)
      with assms n None rs a have "cs = c0 @ c1" and "\<exists>e. out = Returned (Some e)"
        by (auto simp: Exec_def)
      moreover from f1 Some have "follows os (h @ c0) (?A @ ?R @ ?D) c1 False"
        by (simp add: follows_fail_append del: append.simps)
      with g0 have "follows os h (Exec_prepare_steps c) (c0 @ c1) False"
        unfolding steps by (rule follows_ok_append)
      ultimately show ?thesis by simp
    next
      case r1None: None
      with f1 have g1: "follows os (h @ c0) ?A c1 True" by simp
      obtain c2 r2 where r: "Restrict os (h @ c0 @ c1) rs = (c2, r2)"
        by (cases "Restrict os (h @ c0 @ c1) rs")
      note f2 = follows_Restrict[OF r]
      show ?thesis
      proof (cases r2)
        case (Some e)
        with assms n None rs a r1None r have "cs = c0 @ c1 @ c2" and "\<exists>e. out = Returned (Some e)"
          by (auto simp: Exec_def)
        moreover from f2 Some have "follows os (h @ c0 @ c1) (?R @ ?D) c2 False"
          by (simp add: follows_fail_append del: append.simps)
        with g1 have "follows os (h @ c0) (?A @ ?R @ ?D) (c1 @ c2) False"
          using follows_ok_append[of os "h @ c0" ?A c1 "?R @ ?D" c2 False] by simp
        with g0 have "follows os h (Exec_prepare_steps c) (c0 @ c1 @ c2) False"
          unfolding steps by (rule follows_ok_append)
        ultimately show ?thesis by simp
      next
        case r2None: None
        with f2 have g2: "follows os (h @ c0 @ c1) ?R c2 True" by simp
        let ?c3 = "[Chdir (Dir c)]"
        have f3: "follows os (h @ c0 @ c1 @ c2) ?D ?c3
                    (Chdir_ret os (h @ c0 @ c1 @ c2 @ ?c3) = None)"
          by (simp add: follows_def)
        have comb: "\<And>ok. follows os (h @ c0 @ c1 @ c2) ?D ?c3 ok \<Longrightarrow>
                      follows os h (Exec_prepare_steps c) (c0 @ c1 @ c2 @ ?c3) ok"
        proof -
          fix ok assume x: "follows os (h @ c0 @ c1 @ c2) ?D ?c3 ok"
          from g2 x have "follows os (h @ c0 @ c1) (?R @ ?D) (c2 @ ?c3) ok"
            using follows_ok_append[of os "h @ c0 @ c1" ?R c2 ?D ?c3 ok] by simp
          with g1 have "follows os (h @ c0) (?A @ ?R @ ?D) (c1 @ c2 @ ?c3) ok"
            using follows_ok_append[of os "h @ c0" ?A c1 "?R @ ?D" "c2 @ ?c3" ok] by simp
          with g0 show "follows os h (Exec_prepare_steps c) (c0 @ c1 @ c2 @ ?c3) ok"
            unfolding steps by (rule follows_ok_append)
        qed
        show ?thesis
        proof (cases "Chdir_ret os (h @ c0 @ c1 @ c2 @ ?c3)")
          case (Some e)
          with assms n None rs a r1None r r2None
          have "cs = c0 @ c1 @ c2 @ ?c3" and "\<exists>e. out = Returned (Some e)"
            by (auto simp: Exec_def Let_def)
          moreover from f3 Some comb
          have "follows os h (Exec_prepare_steps c) (c0 @ c1 @ c2 @ ?c3) False" by simp
          ultimately show ?thesis by simp
        next
          case cdNone: None
          let ?pre = "c0 @ c1 @ c2 @ ?c3"
          from f3 cdNone comb have fp: "follows os h (Exec_prepare_steps c) ?pre True" by simp
          from assms n None rs a r1None r r2None cdNone
          have "cs = ?pre @ [Execve (Name c) (Args c) (Env c)]"
            and "out = (case Exec_ret os (h @ cs) of
                     None \<Rightarrow> ImageReplaced
                   | Some e \<Rightarrow> Returned (Some (Errorf ''exec failed: %w'' [] e)))"
            by (auto simp: Exec_def Let_def split: option.splits)
          with fp show ?thesis by blast
        qed
      qed
    qed
  qed
qed

lemma all_ok_mid: "all_ok os h (pre @ x # post) \<Longrightarrow> call_ok os (h @ pre) x"
  by (simp add: all_ok_append)

lemma Execve_last:
  assumes "pre0 @ [E] = pre @ x # post" and "x \<notin> set pre0"
  shows "pre = pre0 \<and> post = [] \<and> x = E"
proof (cases post rule: rev_cases)
  case Nil
  with assms show ?thesis by simp
next
  case (snoc ys y)
  with assms have "pre0 = pre @ x # ys" by simp
  with assms show ?thesis by simp
qed

lemma not_last:
  assumes "pre0 @ [E] = pre @ x # post" and "x \<noteq> E"
  shows "\<exists>ys. pre0 = pre @ x # ys"
proof (cases post rule: rev_cases)
  case Nil
  with assms show ?thesis by simp
next
  case (snoc ys y)
  with assms have "pre0 = pre @ x # ys" by simp
  then show ?thesis by blast
qed

lemma Allow_syscalls:
  assumes "Syscall n args \<in> set (fst (Allow os h rs p))"
  shows "n = SYS_LANDLOCK_ADD_RULE \<and> hd args = Val (filedescriptor rs)"
  using assms
  by (auto simp: Allow_def accessRights_def Let_def Allow_rule_call_def
      split: prod.splits option.splits if_splits)

lemma Exec_allow_paths_syscalls:
  "Syscall n args \<in> set (fst (Exec_allow_paths os h rs ps)) \<Longrightarrow>
     n = SYS_LANDLOCK_ADD_RULE \<and> hd args = Val (filedescriptor rs)"
proof (induction ps arbitrary: h)
  case Nil
  then show ?case by simp
next
  case (Cons p ps)
  obtain c1 r1 where a: "Allow os h rs p = (c1, r1)" by (cases "Allow os h rs p")
  obtain c2 r2 where b: "Exec_allow_paths os (h @ c1) rs ps = (c2, r2)"
    by (cases "Exec_allow_paths os (h @ c1) rs ps")
  from Cons.prems a b have "Syscall n args \<in> set c1 \<or> Syscall n args \<in> set c2"
    by (auto split: option.splits)
  then show ?case
  proof
    assume "Syscall n args \<in> set c1"
    with a show ?thesis using Allow_syscalls[of n args os h rs p] by simp
  next
    assume "Syscall n args \<in> set c2"
    with b show ?thesis using Cons.IH[of "h @ c1"] by simp
  qed
qed

lemma Restrict_syscalls:
  assumes "Syscall n args \<in> set (fst (Restrict os h rs))"
  shows "n = SYS_LANDLOCK_RESTRICT_SELF \<and> hd args = Val (filedescriptor rs)"
  using assms unfolding Restrict_result
  by (auto simp: Restrict_prctl_call_def Restrict_self_call_def split: option.splits)

lemma Exec_syscalls:
  assumes "Exec os h c = (cs, out)"
  shows "\<exists>rest. cs = NewFSRuleset_call # rest \<and>
           (\<forall>n args. Syscall n args \<in> set rest \<longrightarrow>
              (n = SYS_LANDLOCK_ADD_RULE \<or> n = SYS_LANDLOCK_RESTRICT_SELF) \<and>
              hd args = Val (fst (Syscall_ret os (h @ [NewFSRuleset_call]))))"
proof -
  let ?fd = "fst (Syscall_ret os (h @ [NewFSRuleset_call]))"
  let ?rs = "\<lparr>filedescriptor = ?fd\<rparr>"
  let ?P = "\<lambda>rest. \<forall>n args. Syscall n args \<in> set rest \<longrightarrow>
              (n = SYS_LANDLOCK_ADD_RULE \<or> n = SYS_LANDLOCK_RESTRICT_SELF) \<and>
              hd args = Val ?fd"
  show ?thesis
  proof (cases "snd (Syscall_ret os (h @ [NewFSRuleset_call])) = 0")
    case False
    with assms have "cs = [NewFSRuleset_call]"
      by (auto simp: Exec_def NewFSRuleset_result errnoToError_None_iff split: option.splits)
    then show ?thesis by simp
  next
    case True
    obtain c1 r1 where a: "Exec_allow_paths os (h @ [NewFSRuleset_call]) ?rs (AllowedFSAccessPaths c) = (c1, r1)"
      by (cases "Exec_allow_paths os (h @ [NewFSRuleset_call]) ?rs (AllowedFSAccessPaths c)")
    obtain c2 r2 where r: "Restrict os (h @ [NewFSRuleset_call] @ c1) ?rs = (c2, r2)"
      by (cases "Restrict os (h @ [NewFSRuleset_call] @ c1) ?rs")
    have p1: "?P c1"
      using Exec_allow_paths_syscalls[of _ _ os "h @ [NewFSRuleset_call]" ?rs "AllowedFSAccessPaths c"] a
      by simp
    have p2: "?P c2"
      using Restrict_syscalls[of _ _ os "h @ [NewFSRuleset_call] @ c1" ?rs] r by simp
    from assms True a r
    have "cs = NewFSRuleset_call # c1 \<or> cs = NewFSRuleset_call # c1 @ c2 \<or>
          cs = NewFSRuleset_call # c1 @ c2 @ [Chdir (Dir c)] \<or>
          cs = NewFSRuleset_call # c1 @ c2 @ [Chdir (Dir c), Execve (Name c) (Args c) (Env c)]"
      by (auto simp: Exec_def NewFSRuleset_result errnoToError_zero Let_def split: option.splits)
    with p1 p2 show ?thesis by auto
  qed
qed

text \<open>
  Claim C3. For every \<open>CmdSandboxed\<close> value, operating system and earlier calls, the
  calls \<open>Exec\<close> makes are a beginning of the sequence: create the ruleset; for each
  entry of \<open>AllowedFSAccessPaths\<close> in list order stat, open, add the rule, close;
  set no-new-privileges; self-restrict; change to \<open>Dir\<close>; replace the image. The
  image is replaced exactly when the whole sequence ran and every call succeeded;
  otherwise an error is returned (never \<open>nil\<close>, never a panic). \<open>Exec\<close> goes on
  as long as its calls succeed: when every call it made succeeded, it made the whole
  sequence and the image is replaced. A call of
  \<open>syscall.Exec\<close> is the last call, made only after all the other steps ran and
  succeeded (so after the self-restriction succeeded); and when any call before it
  fails, \<open>syscall.Exec\<close> is not called at all and an error is returned. The first
  call always is \<open>landlock_create_ruleset\<close> for the rights \<open>fsRights\<close>; every later
  system call is \<open>landlock_add_rule\<close> or \<open>landlock_restrict_self\<close> and names, as
  its first argument, the ruleset descriptor that first call returned.
\<close>

theorem Exec_order:
  assumes "Exec os h c = (cs, out)"
  shows "prefix (map step_of cs) (Exec_steps c) \<and>
     ((out = ImageReplaced) = (map step_of cs = Exec_steps c \<and> all_ok os h cs)) \<and>
     (all_ok os h cs \<longrightarrow> out = ImageReplaced \<and> map step_of cs = Exec_steps c) \<and>
     (out = ImageReplaced \<or> (\<exists>e. out = Returned (Some e))) \<and>
     (\<forall>pre x post. cs = pre @ x # post \<and> is_Execve x \<longrightarrow>
        post = [] \<and> x = Execve (Name c) (Args c) (Env c) \<and>
        map step_of pre = Exec_prepare_steps c \<and> all_ok os h pre) \<and>
     (\<forall>pre x post. cs = pre @ x # post \<and> \<not> is_Execve x \<and> \<not> call_ok os (h @ pre) x \<longrightarrow>
        (\<forall>y\<in>set cs. \<not> is_Execve y) \<and> (\<exists>e. out = Returned (Some e))) \<and>
     (\<exists>rest.
        cs = Syscall SYS_LANDLOCK_CREATE_RULESET [RulesetAttrPtr fsRights, Val 24, Val 0] # rest \<and>
        (\<forall>n args. Syscall n args \<in> set rest \<longrightarrow>
           (n = SYS_LANDLOCK_ADD_RULE \<or> n = SYS_LANDLOCK_RESTRICT_SELF) \<and>
           hd args = Val (fst (Syscall_ret os
             (h @ [Syscall SYS_LANDLOCK_CREATE_RULESET [RulesetAttrPtr fsRights, Val 24, Val 0]])))))"
proof -
  let ?E = "Execve (Name c) (Args c) (Env c)"
  have 6: "\<exists>rest.
        cs = Syscall SYS_LANDLOCK_CREATE_RULESET [RulesetAttrPtr fsRights, Val 24, Val 0] # rest \<and>
        (\<forall>n args. Syscall n args \<in> set rest \<longrightarrow>
           (n = SYS_LANDLOCK_ADD_RULE \<or> n = SYS_LANDLOCK_RESTRICT_SELF) \<and>
           hd args = Val (fst (Syscall_ret os
             (h @ [Syscall SYS_LANDLOCK_CREATE_RULESET [RulesetAttrPtr fsRights, Val 24, Val 0]]))))"
    using Exec_syscalls[OF assms] by (simp add: NewFSRuleset_call_def version_def)
  from Exec_cases[OF assms] consider
    (reached) pre0 where "cs = pre0 @ [?E]" "follows os h (Exec_prepare_steps c) pre0 True"
      "out = (case Exec_ret os (h @ cs) of None \<Rightarrow> ImageReplaced
              | Some e \<Rightarrow> Returned (Some (Errorf ''exec failed: %w'' [] e)))"
  | (stopped) "follows os h (Exec_prepare_steps c) cs False" "\<exists>e. out = Returned (Some e)"
    by blast
  then show ?thesis
  proof cases
    case reached
    from reached(2) have m: "map step_of pre0 = Exec_prepare_steps c"
      and ok: "all_ok os h pre0" and ne: "\<forall>x\<in>set pre0. \<not> is_Execve x"
      by (auto simp: follows_def)
    have 1: "prefix (map step_of cs) (Exec_steps c)"
      using reached(1) m by (simp add: Exec_steps_def)
    have 2: "(out = ImageReplaced) = (map step_of cs = Exec_steps c \<and> all_ok os h cs)"
      using reached(1,3) m ok by (auto simp: Exec_steps_def all_ok_append split: option.splits)
    have 3: "out = ImageReplaced \<or> (\<exists>e. out = Returned (Some e))"
      using reached(3) by (auto split: option.splits)
    have 7: "all_ok os h cs \<longrightarrow> out = ImageReplaced \<and> map step_of cs = Exec_steps c"
      using reached(1,3) m ok by (auto simp: Exec_steps_def all_ok_append split: option.splits)
    have 4: "\<forall>pre x post. cs = pre @ x # post \<and> is_Execve x \<longrightarrow>
        post = [] \<and> x = ?E \<and> map step_of pre = Exec_prepare_steps c \<and> all_ok os h pre"
    proof (intro allI impI)
      fix pre x post assume a: "cs = pre @ x # post \<and> is_Execve x"
      with ne have "x \<notin> set pre0" by auto
      with a reached(1) have "pre = pre0 \<and> post = [] \<and> x = ?E"
        using Execve_last[of pre0 ?E pre x post] by simp
      with m ok show "post = [] \<and> x = ?E \<and> map step_of pre = Exec_prepare_steps c \<and> all_ok os h pre"
        by simp
    qed
    have 5: "\<forall>pre x post. cs = pre @ x # post \<and> \<not> is_Execve x \<and> \<not> call_ok os (h @ pre) x \<longrightarrow>
        (\<forall>y\<in>set cs. \<not> is_Execve y) \<and> (\<exists>e. out = Returned (Some e))"
    proof (intro allI impI)
      fix pre x post
      assume a: "cs = pre @ x # post \<and> \<not> is_Execve x \<and> \<not> call_ok os (h @ pre) x"
      then have "x \<noteq> ?E" by auto
      with a reached(1) obtain ys where "pre0 = pre @ x # ys"
        using not_last[of pre0 ?E pre x post] by auto
      with ok have "call_ok os (h @ pre) x" by (simp add: all_ok_mid)
      with a show "(\<forall>y\<in>set cs. \<not> is_Execve y) \<and> (\<exists>e. out = Returned (Some e))" by simp
    qed
    from 1 2 3 4 5 6 7 show ?thesis by blast
  next
    case stopped
    from stopped(1) have p: "prefix (map step_of cs) (Exec_prepare_steps c)"
      and ne: "\<forall>x\<in>set cs. \<not> is_Execve x" and nok: "\<not> all_ok os h cs"
      by (auto simp: follows_def)
    have 1: "prefix (map step_of cs) (Exec_steps c)"
      using p by (simp add: Exec_steps_def prefix_prefix)
    have "map step_of cs \<noteq> Exec_steps c"
    proof
      assume "map step_of cs = Exec_steps c"
      with p have "prefix (Exec_prepare_steps c @ [ReplaceImage (Name c) (Args c) (Env c)])
                     (Exec_prepare_steps c)"
        by (simp add: Exec_steps_def)
      then show False by (auto simp: prefix_def)
    qed
    with stopped(2) have 2: "(out = ImageReplaced) = (map step_of cs = Exec_steps c \<and> all_ok os h cs)"
      by auto
    have 3: "\<forall>pre x post. cs = pre @ x # post \<and> is_Execve x \<longrightarrow>
        post = [] \<and> x = ?E \<and> map step_of pre = Exec_prepare_steps c \<and> all_ok os h pre"
      using ne by auto
    from 1 2 3 6 stopped(2) ne nok show ?thesis by blast
  qed
qed

lemma Exec_cmd_make_ok: "Exec os_all_ok [] cmd_make = (cmd_make_calls, ImageReplaced)"
  by (simp add: Exec_def NewFSRuleset_def Allow_def accessRights_def Restrict_def os_all_ok_def
      cmd_make_def cmd_make_calls_def Let_def errnoToError_def NewFSRuleset_call_def
      Allow_rule_call_def Restrict_prctl_call_def Restrict_self_call_def
      SYS_LANDLOCK_CREATE_RULESET_def SYS_LANDLOCK_ADD_RULE_def SYS_LANDLOCK_RESTRICT_SELF_def)

lemma Exec_cmd_make_prctl_fails: "Exec os_prctl_fails [] cmd_make =
   (butlast (butlast (butlast cmd_make_calls)),
    Returned (Some (Errorf ''restricting landlock file access failed: %w'' []
       (Errorf ''prctl failed: %w'' [] (Errno 1)))))"
  by (simp add: Exec_def NewFSRuleset_def Allow_def accessRights_def Restrict_def os_all_ok_def
      os_prctl_fails_def
      cmd_make_def cmd_make_calls_def Let_def errnoToError_def NewFSRuleset_call_def
      Allow_rule_call_def Restrict_prctl_call_def Restrict_self_call_def
      SYS_LANDLOCK_CREATE_RULESET_def SYS_LANDLOCK_ADD_RULE_def SYS_LANDLOCK_RESTRICT_SELF_def)

lemma Exec_cmd_true_ok:
  "Exec os_all_ok [] cmd_true =
     ([Syscall 444 [RulesetAttrPtr 0xC, Val 24, Val 0],
       Prctl 0x26 1 0 0 0,
       Syscall 446 [Val 3, Val 0, Val 0],
       Chdir ''/'',
       Execve ''/bin/true'' [''true''] []], ImageReplaced)"
  by (simp add: Exec_def NewFSRuleset_def Restrict_def os_all_ok_def
      cmd_true_def Let_def errnoToError_def NewFSRuleset_call_def version_def
      fsRights_def LANDLOCK_ACCESS_FS_READ_FILE_def LANDLOCK_ACCESS_FS_READ_DIR_def
      Restrict_prctl_call_def Restrict_self_call_def PR_SET_NO_NEW_PRIVS_def
      SYS_LANDLOCK_CREATE_RULESET_def SYS_LANDLOCK_RESTRICT_SELF_def)

theorem Exec_order_witness:
  "Exec os_all_ok [] cmd_make = (cmd_make_calls, ImageReplaced) \<and>
   map step_of cmd_make_calls = Exec_steps cmd_make \<and>
   all_ok os_all_ok [] cmd_make_calls \<and>
   fst (Exec os_prctl_fails [] cmd_make) = butlast (butlast (butlast cmd_make_calls)) \<and>
   filter is_Execve (fst (Exec os_prctl_fails [] cmd_make)) = [] \<and>
   Exec os_all_ok [] cmd_true =
     ([Syscall 444 [RulesetAttrPtr 0xC, Val 24, Val 0],
       Prctl 0x26 1 0 0 0,
       Syscall 446 [Val 3, Val 0, Val 0],
       Chdir ''/'',
       Execve ''/bin/true'' [''true''] []], ImageReplaced) \<and>
   Exec_steps cmd_true =
     [CreateRuleset, NoNewPrivs, RestrictSelf, ChangeDir ''/'', ReplaceImage ''/bin/true'' [''true''] []]"
proof -
  from Exec_order[OF Exec_cmd_make_ok]
  have "map step_of cmd_make_calls = Exec_steps cmd_make \<and> all_ok os_all_ok [] cmd_make_calls"
    by simp
  moreover have "filter is_Execve (butlast (butlast (butlast cmd_make_calls))) = []"
    by (simp add: cmd_make_calls_def NewFSRuleset_call_def
      Allow_rule_call_def Restrict_prctl_call_def Restrict_self_call_def)
  moreover from Exec_order[OF Exec_cmd_true_ok]
  have "Exec_steps cmd_true =
     [CreateRuleset, NoNewPrivs, RestrictSelf, ChangeDir ''/'', ReplaceImage ''/bin/true'' [''true''] []]"
    by (simp add: SYS_LANDLOCK_CREATE_RULESET_def SYS_LANDLOCK_ADD_RULE_def
        SYS_LANDLOCK_RESTRICT_SELF_def PR_SET_NO_NEW_PRIVS_def)
  ultimately show ?thesis using Exec_cmd_make_ok Exec_cmd_make_prctl_fails Exec_cmd_true_ok
    by simp
qed

section \<open>Verified properties: access rights\<close>

lemma rights_values:
  "fsRights = 0xC" "fileRights = 0x4"
  by (simp_all add: fsRights_def fileRights_def LANDLOCK_ACCESS_FS_READ_FILE_def
      LANDLOCK_ACCESS_FS_READ_DIR_def LANDLOCK_ACCESS_FS_REMOVE_DIR_def
      LANDLOCK_ACCESS_FS_MAKE_DIR_def)

lemma accessRights_result:
  "accessRights os h path =
     ([IsDir path],
      (case IsDir_ret os (h @ [IsDir path]) of
         (isDir, Some e) \<Rightarrow> (0, Some e)
       | (isDir, None) \<Rightarrow> (if isDir then fsRights else fileRights, None)))"
  by (simp add: accessRights_def Let_def split: prod.splits option.splits)

lemma Allow_result:
  "Allow os h rs path =
     (case IsDir_ret os (h @ [IsDir path]) of
        (isDir, Some e) \<Rightarrow> ([IsDir path], Some e)
      | (isDir, None) \<Rightarrow>
          (case Open_ret os (h @ [IsDir path, Open path (O_PATH OR O_CLOEXEC) 0]) of
             (f, Some e) \<Rightarrow> ([IsDir path, Open path (O_PATH OR O_CLOEXEC) 0], Some e)
           | (f, None) \<Rightarrow>
               ([IsDir path, Open path (O_PATH OR O_CLOEXEC) 0,
                 Syscall 445 [Val (filedescriptor rs), Val 1,
                   PathBeneathAttrPtr (if isDir then 0xC else 0x4) (word_of_int f),
                   Val 0, Val 0, Val 0],
                 Close f],
                errnoToError (snd (Syscall_ret os
                  (h @ [IsDir path, Open path (O_PATH OR O_CLOEXEC) 0,
                        Syscall 445 [Val (filedescriptor rs), Val 1,
                          PathBeneathAttrPtr (if isDir then 0xC else 0x4) (word_of_int f),
                          Val 0, Val 0, Val 0]]))))))"
proof -
  obtain isDir e1 where a: "IsDir_ret os (h @ [IsDir path]) = (isDir, e1)"
    by (cases "IsDir_ret os (h @ [IsDir path])")
  obtain f e2 where b: "Open_ret os (h @ [IsDir path, Open path (O_PATH OR O_CLOEXEC) 0]) = (f, e2)"
    by (cases "Open_ret os (h @ [IsDir path, Open path (O_PATH OR O_CLOEXEC) 0])")
  obtain r sysErr where c: "Syscall_ret os
      (h @ [IsDir path, Open path (O_PATH OR O_CLOEXEC) 0,
            Syscall 445 [Val (filedescriptor rs), Val 1,
              PathBeneathAttrPtr (if isDir then 0xC else 0x4) (word_of_int f),
              Val 0, Val 0, Val 0]]) = (r, sysErr)"
    by (cases "Syscall_ret os
      (h @ [IsDir path, Open path (O_PATH OR O_CLOEXEC) 0,
            Syscall 445 [Val (filedescriptor rs), Val 1,
              PathBeneathAttrPtr (if isDir then 0xC else 0x4) (word_of_int f),
              Val 0, Val 0, Val 0]])")
  show ?thesis
  proof (cases e1)
    case (Some e)
    with a show ?thesis by (simp add: Allow_def accessRights_def)
  next
    case e1None: None
    show ?thesis
    proof (cases e2)
      case (Some e)
      with a b e1None show ?thesis
        by (cases isDir) (simp_all add: Allow_def accessRights_def)
    next
      case None
      with a b c e1None show ?thesis
        by (cases isDir)
          (simp_all add: Allow_def accessRights_def Allow_rule_call_def rights_values
            SYS_LANDLOCK_ADD_RULE_def LANDLOCK_RULE_PATH_BENEATH_def errnoToError_zero Let_def)
    qed
  qed
qed

lemma Allow_rule_mask:
  assumes "x \<in> set (fst (Allow os h rs path))" and "step_of x = AddRule"
  shows "snd (IsDir_ret os (h @ [IsDir path])) = None \<and>
         snd (Open_ret os (h @ [IsDir path, Open path (O_PATH OR O_CLOEXEC) 0])) = None \<and>
         x = Syscall 445 [Val (filedescriptor rs), Val 1,
               PathBeneathAttrPtr
                 (if fst (IsDir_ret os (h @ [IsDir path])) then 0xC else 0x4)
                 (word_of_int (fst (Open_ret os (h @ [IsDir path, Open path (O_PATH OR O_CLOEXEC) 0])))),
               Val 0, Val 0, Val 0]"
  using assms unfolding Allow_result
  by (auto split: prod.splits option.splits if_splits)

lemma Allow_success:
  assumes "snd (Allow os h rs path) = None"
  shows "fst (Allow os h rs path) =
           [IsDir path, Open path (O_PATH OR O_CLOEXEC) 0,
            Syscall 445 [Val (filedescriptor rs), Val 1,
              PathBeneathAttrPtr
                (if fst (IsDir_ret os (h @ [IsDir path])) then 0xC else 0x4)
                (word_of_int (fst (Open_ret os (h @ [IsDir path, Open path (O_PATH OR O_CLOEXEC) 0])))),
              Val 0, Val 0, Val 0],
            Close (fst (Open_ret os (h @ [IsDir path, Open path (O_PATH OR O_CLOEXEC) 0])))]"
  using assms unfolding Allow_result
  by (auto split: prod.splits option.splits if_splits)

text \<open>
  Claim C2. The mask for directories is exactly \<open>{READ_FILE, READ_DIR}\<close> (the bits
  \<open>0x4\<close> and \<open>0x8\<close>, so \<open>0xC\<close>) and the mask for files exactly \<open>{READ_FILE}\<close>
  (\<open>0x4\<close>), the directory mask without the directory right \<open>READ_DIR\<close>; the two
  rights are different bits. \<open>accessRights\<close> returns the first when \<open>fs.IsDir\<close>
  reports a directory, the second when it reports none, and the zero mask with the
  error when \<open>fs.IsDir\<close> fails. \<open>Allow\<close> asks \<open>fs.IsDir\<close>, opens the path and then
  makes the system call \<open>landlock_add_rule\<close> (number 445) for the ruleset, with rule
  type \<open>LANDLOCK_RULE_PATH_BENEATH\<close> (1) and the attribute holding the opened
  descriptor and the mask \<open>0xC\<close> for a directory, \<open>0x4\<close> for anything else, and
  closes the descriptor; it returns the error of the first step that failed. So a
  successful \<open>Allow\<close> made exactly these four calls, and every rule it registers
  carries the mask chosen by \<open>fs.IsDir\<close>'s answer for that path.
\<close>

theorem accessRights_masks:
  "LANDLOCK_ACCESS_FS_READ_FILE = 0x4 \<and> LANDLOCK_ACCESS_FS_READ_DIR = 0x8 \<and>
   fsRights = 0xC \<and> fileRights = 0x4 \<and>
   fsRights = LANDLOCK_ACCESS_FS_READ_FILE OR LANDLOCK_ACCESS_FS_READ_DIR \<and>
   fileRights = LANDLOCK_ACCESS_FS_READ_FILE \<and>
   fileRights = fsRights AND NOT LANDLOCK_ACCESS_FS_READ_DIR \<and>
   LANDLOCK_ACCESS_FS_READ_FILE AND LANDLOCK_ACCESS_FS_READ_DIR = 0 \<and>
   LANDLOCK_ACCESS_FS_READ_FILE \<noteq> 0 \<and> LANDLOCK_ACCESS_FS_READ_DIR \<noteq> 0 \<and>
   (\<forall>os h path. accessRights os h path =
      ([IsDir path],
       (case IsDir_ret os (h @ [IsDir path]) of
          (isDir, Some e) \<Rightarrow> (0, Some e)
        | (isDir, None) \<Rightarrow> (if isDir then 0xC else 0x4, None)))) \<and>
   (\<forall>os h rs path. Allow os h rs path =
      (case IsDir_ret os (h @ [IsDir path]) of
         (isDir, Some e) \<Rightarrow> ([IsDir path], Some e)
       | (isDir, None) \<Rightarrow>
           (case Open_ret os (h @ [IsDir path, Open path (O_PATH OR O_CLOEXEC) 0]) of
              (f, Some e) \<Rightarrow> ([IsDir path, Open path (O_PATH OR O_CLOEXEC) 0], Some e)
            | (f, None) \<Rightarrow>
                ([IsDir path, Open path (O_PATH OR O_CLOEXEC) 0,
                  Syscall 445 [Val (filedescriptor rs), Val 1,
                    PathBeneathAttrPtr (if isDir then 0xC else 0x4) (word_of_int f),
                    Val 0, Val 0, Val 0],
                  Close f],
                 errnoToError (snd (Syscall_ret os
                   (h @ [IsDir path, Open path (O_PATH OR O_CLOEXEC) 0,
                         Syscall 445 [Val (filedescriptor rs), Val 1,
                           PathBeneathAttrPtr (if isDir then 0xC else 0x4) (word_of_int f),
                           Val 0, Val 0, Val 0]]))))))) \<and>
   (\<forall>os h rs path. snd (Allow os h rs path) = None \<longrightarrow>
      fst (Allow os h rs path) =
        [IsDir path, Open path (O_PATH OR O_CLOEXEC) 0,
         Syscall 445 [Val (filedescriptor rs), Val 1,
           PathBeneathAttrPtr
             (if fst (IsDir_ret os (h @ [IsDir path])) then 0xC else 0x4)
             (word_of_int (fst (Open_ret os (h @ [IsDir path, Open path (O_PATH OR O_CLOEXEC) 0])))),
           Val 0, Val 0, Val 0],
         Close (fst (Open_ret os (h @ [IsDir path, Open path (O_PATH OR O_CLOEXEC) 0])))]) \<and>
   (\<forall>os h rs path x. x \<in> set (fst (Allow os h rs path)) \<and> step_of x = AddRule \<longrightarrow>
      snd (IsDir_ret os (h @ [IsDir path])) = None \<and>
      snd (Open_ret os (h @ [IsDir path, Open path (O_PATH OR O_CLOEXEC) 0])) = None \<and>
      x = Syscall 445 [Val (filedescriptor rs), Val 1,
            PathBeneathAttrPtr
              (if fst (IsDir_ret os (h @ [IsDir path])) then 0xC else 0x4)
              (word_of_int (fst (Open_ret os (h @ [IsDir path, Open path (O_PATH OR O_CLOEXEC) 0])))),
            Val 0, Val 0, Val 0])"
proof -
  have "LANDLOCK_ACCESS_FS_READ_FILE = 0x4 \<and> LANDLOCK_ACCESS_FS_READ_DIR = 0x8"
    by (simp add: LANDLOCK_ACCESS_FS_READ_FILE_def LANDLOCK_ACCESS_FS_READ_DIR_def)
  moreover have "fsRights = 0xC \<and> fileRights = 0x4"
    by (simp add: rights_values)
  moreover have "fsRights = LANDLOCK_ACCESS_FS_READ_FILE OR LANDLOCK_ACCESS_FS_READ_DIR"
    by (simp add: rights_values LANDLOCK_ACCESS_FS_READ_FILE_def LANDLOCK_ACCESS_FS_READ_DIR_def)
  moreover have "fileRights = LANDLOCK_ACCESS_FS_READ_FILE"
    by (simp add: rights_values LANDLOCK_ACCESS_FS_READ_FILE_def)
  moreover have "fileRights = fsRights AND NOT LANDLOCK_ACCESS_FS_READ_DIR"
    by (simp add: rights_values LANDLOCK_ACCESS_FS_READ_DIR_def)
  moreover have "LANDLOCK_ACCESS_FS_READ_FILE AND LANDLOCK_ACCESS_FS_READ_DIR = 0"
    by (simp add: LANDLOCK_ACCESS_FS_READ_FILE_def LANDLOCK_ACCESS_FS_READ_DIR_def)
  moreover have "LANDLOCK_ACCESS_FS_READ_FILE \<noteq> 0 \<and> LANDLOCK_ACCESS_FS_READ_DIR \<noteq> 0"
    by (simp add: LANDLOCK_ACCESS_FS_READ_FILE_def LANDLOCK_ACCESS_FS_READ_DIR_def)
  moreover have "\<forall>os h path. accessRights os h path =
      ([IsDir path],
       (case IsDir_ret os (h @ [IsDir path]) of
          (isDir, Some e) \<Rightarrow> (0, Some e)
        | (isDir, None) \<Rightarrow> (if isDir then 0xC else 0x4, None)))"
    by (simp add: accessRights_result rights_values split: prod.splits option.splits)
  ultimately show ?thesis
    using Allow_result Allow_success Allow_rule_mask by blast
qed

theorem accessRights_masks_witness:
  "accessRights os_all_ok [] ''/usr/lib'' = ([IsDir ''/usr/lib''], 0xC, None) \<and>
   accessRights os_all_ok [] ''/repo/app/main.c'' = ([IsDir ''/repo/app/main.c''], 0x4, None) \<and>
   Allow os_all_ok [] \<lparr>filedescriptor = 3\<rparr> ''/usr/lib'' =
     ([IsDir ''/usr/lib'', Open ''/usr/lib'' (O_PATH OR O_CLOEXEC) 0,
       Syscall 445 [Val 3, Val 1, PathBeneathAttrPtr 0xC 4, Val 0, Val 0, Val 0],
       Close 4], None) \<and>
   Allow os_all_ok [] \<lparr>filedescriptor = 3\<rparr> ''/repo/app/main.c'' =
     ([IsDir ''/repo/app/main.c'', Open ''/repo/app/main.c'' (O_PATH OR O_CLOEXEC) 0,
       Syscall 445 [Val 3, Val 1, PathBeneathAttrPtr 0x4 4, Val 0, Val 0, Val 0],
       Close 4], None)"
proof -
  note A = accessRights_masks
  have "accessRights os_all_ok [] ''/usr/lib'' = ([IsDir ''/usr/lib''], 0xC, None)"
    using A by (simp add: os_all_ok_def)
  moreover have "accessRights os_all_ok [] ''/repo/app/main.c'' = ([IsDir ''/repo/app/main.c''], 0x4, None)"
    using A by (simp add: os_all_ok_def)
  moreover have "Allow os_all_ok [] \<lparr>filedescriptor = 3\<rparr> ''/usr/lib'' =
     ([IsDir ''/usr/lib'', Open ''/usr/lib'' (O_PATH OR O_CLOEXEC) 0,
       Syscall 445 [Val 3, Val 1, PathBeneathAttrPtr 0xC 4, Val 0, Val 0, Val 0],
       Close 4], None)"
    using A by (simp add: os_all_ok_def errnoToError_def NewFSRuleset_call_def)
  moreover have "Allow os_all_ok [] \<lparr>filedescriptor = 3\<rparr> ''/repo/app/main.c'' =
     ([IsDir ''/repo/app/main.c'', Open ''/repo/app/main.c'' (O_PATH OR O_CLOEXEC) 0,
       Syscall 445 [Val 3, Val 1, PathBeneathAttrPtr 0x4 4, Val 0, Val 0, Val 0],
       Close 4], None)"
    using A by (simp add: os_all_ok_def errnoToError_def NewFSRuleset_call_def)
  ultimately show ?thesis by blast
qed

section \<open>Verified properties: Restrict\<close>

text \<open>
  Claim C8. \<open>Restrict\<close> first calls \<open>prctl(PR_SET_NO_NEW_PRIVS, 1, 0, 0, 0)\<close>. When
  that fails, it is the only call made and its error is returned wrapped in
  \<open>prctl failed\<close>; when it succeeds, the self-restrict system call follows and its
  errno is returned through \<open>errnoToError\<close>. So a self-restrict call of \<open>Restrict\<close>
  is always the second call, after a \<open>prctl\<close> that succeeded.
\<close>

theorem Restrict_order:
  "Restrict_prctl_call = Prctl PR_SET_NO_NEW_PRIVS 1 0 0 0 \<and>
   (\<forall>os h rs e. Prctl_ret os (h @ [Restrict_prctl_call]) = Some e \<longrightarrow>
      Restrict os h rs = ([Restrict_prctl_call], Some (Errorf ''prctl failed: %w'' [] e))) \<and>
   (\<forall>os h rs. Prctl_ret os (h @ [Restrict_prctl_call]) = None \<longrightarrow>
      Restrict os h rs =
        ([Restrict_prctl_call, Restrict_self_call rs],
         errnoToError (snd (Syscall_ret os (h @ [Restrict_prctl_call, Restrict_self_call rs]))))) \<and>
   (\<forall>os h rs pre x post.
      fst (Restrict os h rs) = pre @ x # post \<and> step_of x = RestrictSelf \<longrightarrow>
      pre = [Restrict_prctl_call] \<and> x = Restrict_self_call rs \<and> post = [] \<and>
      Prctl_ret os (h @ [Restrict_prctl_call]) = None)"
proof -
  have a: "Restrict_prctl_call = Prctl PR_SET_NO_NEW_PRIVS 1 0 0 0"
    by (simp add: Restrict_prctl_call_def)
  have b: "\<forall>os h rs e. Prctl_ret os (h @ [Restrict_prctl_call]) = Some e \<longrightarrow>
      Restrict os h rs = ([Restrict_prctl_call], Some (Errorf ''prctl failed: %w'' [] e))"
    by (simp add: Restrict_result)
  have c: "\<forall>os h rs. Prctl_ret os (h @ [Restrict_prctl_call]) = None \<longrightarrow>
      Restrict os h rs =
        ([Restrict_prctl_call, Restrict_self_call rs],
         errnoToError (snd (Syscall_ret os (h @ [Restrict_prctl_call, Restrict_self_call rs]))))"
    by (simp add: Restrict_result)
  have d: "\<forall>os h rs pre x post.
      fst (Restrict os h rs) = pre @ x # post \<and> step_of x = RestrictSelf \<longrightarrow>
      pre = [Restrict_prctl_call] \<and> x = Restrict_self_call rs \<and> post = [] \<and>
      Prctl_ret os (h @ [Restrict_prctl_call]) = None"
  proof (intro allI impI)
    fix os h rs pre x post
    assume p: "fst (Restrict os h rs) = pre @ x # post \<and> step_of x = RestrictSelf"
    show "pre = [Restrict_prctl_call] \<and> x = Restrict_self_call rs \<and> post = [] \<and>
      Prctl_ret os (h @ [Restrict_prctl_call]) = None"
    proof (cases "Prctl_ret os (h @ [Restrict_prctl_call])")
      case (Some e)
      with p have "[Restrict_prctl_call] = pre @ x # post" by (simp add: Restrict_result)
      then have "x = Restrict_prctl_call" by (cases pre) auto
      with p show ?thesis by (simp add: step_of_calls)
    next
      case None
      with p have e: "[Restrict_prctl_call, Restrict_self_call rs] = pre @ x # post"
        by (simp add: Restrict_result)
      have "pre = [Restrict_prctl_call] \<and> x = Restrict_self_call rs \<and> post = []"
      proof (cases pre)
        case Nil
        with e have "x = Restrict_prctl_call" by simp
        with p show ?thesis by (simp add: step_of_calls)
      next
        case (Cons y ys)
        with e have "y = Restrict_prctl_call" and "[Restrict_self_call rs] = ys @ x # post" by auto
        then show ?thesis using Cons by (cases ys) auto
      qed
      with None show ?thesis by simp
    qed
  qed
  from a b c d show ?thesis by blast
qed

theorem Restrict_order_witness:
  "Restrict os_prctl_fails [] \<lparr>filedescriptor = 3\<rparr> =
     ([Restrict_prctl_call], Some (Errorf ''prctl failed: %w'' [] (Errno 1))) \<and>
   Restrict os_all_ok [] \<lparr>filedescriptor = 3\<rparr> =
     ([Restrict_prctl_call, Restrict_self_call \<lparr>filedescriptor = 3\<rparr>], None)"
proof -
  have "Prctl_ret os_prctl_fails ([] @ [Restrict_prctl_call]) = Some (Errno 1)"
    by (simp add: os_prctl_fails_def)
  with Restrict_order have 1: "Restrict os_prctl_fails [] \<lparr>filedescriptor = 3\<rparr> =
     ([Restrict_prctl_call], Some (Errorf ''prctl failed: %w'' [] (Errno 1)))"
    by blast
  have "Prctl_ret os_all_ok ([] @ [Restrict_prctl_call]) = None"
    by (simp add: os_all_ok_def)
  with Restrict_order have "Restrict os_all_ok [] \<lparr>filedescriptor = 3\<rparr> =
        ([Restrict_prctl_call, Restrict_self_call \<lparr>filedescriptor = 3\<rparr>],
         errnoToError (snd (Syscall_ret os_all_ok
            ([] @ [Restrict_prctl_call, Restrict_self_call \<lparr>filedescriptor = 3\<rparr>]))))"
    by blast
  then have 2: "Restrict os_all_ok [] \<lparr>filedescriptor = 3\<rparr> =
     ([Restrict_prctl_call, Restrict_self_call \<lparr>filedescriptor = 3\<rparr>], None)"
    by (simp add: os_all_ok_def errnoToError_def NewFSRuleset_call_def Restrict_self_call_def)
  from 1 2 show ?thesis by blast
qed

section \<open>Verified properties: the untracked-files gate of RunSandboxed\<close>

lemma untracked_check_files:
  assumes "GitUntrackedFilesFn t = Some fn" and "fn (RepositoryRoot task) = (files, None)"
    and "files \<noteq> []"
  shows "untracked_check t task = Some (ErrUntrackedGitFilesExist files)"
  using assms by (simp add: untracked_check_def)

text \<open>
  Claim C4, as amended. When the untracked-files check is configured and the VCS
  reports a non-empty list of untracked files, \<open>RunSandboxed\<close> returns before any
  side effect (no temporary task info files, no child, and it never commits a run
  itself): with \<open>ErrTaskRunSkipped\<close> when the runner is skipping runs after an
  earlier error, the test the function makes first, and otherwise with
  \<open>ErrUntrackedGitFilesExist\<close> carrying exactly the list the VCS reported.
\<close>

theorem RunSandboxed_untracked:
  assumes "GitUntrackedFilesFn t = Some fn" and "fn (RepositoryRoot task) = (files, None)"
    and "files \<noteq> []"
  shows "RunSandboxed env t task inputs =
     ([], Returns None
            (Some (if skipAfterError t \<and> SkipRunsIsEnabled t then ErrTaskRunSkipped
                   else ErrUntrackedGitFilesExist files)))"
  using untracked_check_files[OF assms] by (simp add: RunSandboxed_def)

theorem RunSandboxed_untracked_witness:
  "RunSandboxed env_plain runner_strict task_build [''main.c''] =
     ([], Returns None (Some (ErrUntrackedGitFilesExist [''new.txt''])))"
proof -
  have a: "GitUntrackedFilesFn runner_strict = Some git_one_untracked"
    by (simp add: runner_strict_def)
  have b: "git_one_untracked (RepositoryRoot task_build) = ([''new.txt''], None)"
    by (simp add: git_one_untracked_def)
  have c: "[''new.txt''] \<noteq> []" by simp
  from RunSandboxed_untracked[OF a b c, of env_plain "[''main.c'']"]
  show ?thesis by (simp add: runner_strict_def)
qed

text \<open>
  The claim as stated, that the untracked-files error is returned for every task
  and runner, fails for a runner that is skipping runs: it returns
  \<open>ErrTaskRunSkipped\<close> without asking the VCS.
\<close>

theorem RunSandboxed_untracked_counterexample:
  "\<not> (\<forall>(env :: (string, int) runner_env) t task inputs fn files.
        GitUntrackedFilesFn t = Some fn \<and> fn (RepositoryRoot task) = (files, None) \<and>
        files \<noteq> [] \<longrightarrow>
        RunSandboxed env t task inputs =
          ([], Returns None (Some (ErrUntrackedGitFilesExist files))))"
proof
  assume a: "\<forall>(env :: (string, int) runner_env) t task inputs fn files.
        GitUntrackedFilesFn t = Some fn \<and> fn (RepositoryRoot task) = (files, None) \<and>
        files \<noteq> [] \<longrightarrow>
        RunSandboxed env t task inputs =
          ([], Returns None (Some (ErrUntrackedGitFilesExist files)))"
  have "GitUntrackedFilesFn runner_skipping = Some git_one_untracked \<and>
        git_one_untracked (RepositoryRoot task_build) = ([''new.txt''], None) \<and>
        [''new.txt''] \<noteq> []"
    by (simp add: runner_skipping_def git_one_untracked_def)
  with a have "RunSandboxed env_plain runner_skipping task_build [''main.c''] =
          ([], Returns None (Some (ErrUntrackedGitFilesExist [''new.txt''])))"
    by blast
  moreover have "RunSandboxed env_plain runner_skipping task_build [''main.c''] =
          ([], Returns None (Some ErrTaskRunSkipped))"
    by (simp add: RunSandboxed_def runner_skipping_def)
  ultimately show False by simp
qed

section \<open>Verified properties: inserts with an empty list\<close>

lemma insertTaskRunInputs_empty:
  "insertTaskRunInputStringsIfNotExist g db taskRunID [] s = (None, s)"
  "insertTaskRunInputFilesIfNotExist g db taskRunID [] s = (None, s)"
  "insertTaskRunInputEnvVarsIfNotExist g db taskRunID [] s = (None, s)"
  "insertTaskRunInputTasksIfNotExist g db taskRunID [] s = (None, s)"
  "insertTaskOutputsIfNotExist db taskRunID [] s = (None, s)"
  by (simp_all add: insertTaskRunInputStringsIfNotExist_def insertTaskRunInputFilesIfNotExist_def
      insertTaskRunInputEnvVarsIfNotExist_def insertTaskRunInputTasksIfNotExist_def
      insertTaskOutputsIfNotExist_def)

lemma saveTaskRun_inserts_empty:
  assumes "Strings (Inputs taskRun) = []" and "Files (Inputs taskRun) = []"
    and "EnvironmentVariables (Inputs taskRun) = []" and "TaskInfo (Inputs taskRun) = []"
    and "Outputs taskRun = []"
  shows "saveTaskRun_inserts g db taskRunID taskRun s = (None, s)"
  using assms by (simp add: saveTaskRun_inserts_def insertTaskRunInputs_empty)

text \<open>
  Claim C10. Each of the five insert functions of a task-run commit (input strings,
  input files, environment variables, task infos, outputs) returns \<open>nil\<close> for an
  empty list and leaves the database as it was, on every connection; on a
  connection that records the statements it is handed, nothing is recorded: no
  statement is issued. So the inserts of a commit whose five lists are all empty
  issue no statement and succeed.
\<close>

theorem empty_kind_issues_no_statement:
  "insertTaskRunInputStringsIfNotExist g db taskRunID [] s = (None, s) \<and>
   insertTaskRunInputFilesIfNotExist g db taskRunID [] s = (None, s) \<and>
   insertTaskRunInputEnvVarsIfNotExist g db taskRunID [] s = (None, s) \<and>
   insertTaskRunInputTasksIfNotExist g db taskRunID [] s = (None, s) \<and>
   insertTaskOutputsIfNotExist db taskRunID [] s = (None, s) \<and>
   insertTaskRunInputStringsIfNotExist g (logged db) taskRunID [] (s, lg) = (None, (s, lg)) \<and>
   insertTaskRunInputFilesIfNotExist g (logged db) taskRunID [] (s, lg) = (None, (s, lg)) \<and>
   insertTaskRunInputEnvVarsIfNotExist g (logged db) taskRunID [] (s, lg) = (None, (s, lg)) \<and>
   insertTaskRunInputTasksIfNotExist g (logged db) taskRunID [] (s, lg) = (None, (s, lg)) \<and>
   insertTaskOutputsIfNotExist (logged db) taskRunID [] (s, lg) = (None, (s, lg)) \<and>
   (Strings (Inputs taskRun) = [] \<and> Files (Inputs taskRun) = [] \<and>
    EnvironmentVariables (Inputs taskRun) = [] \<and> TaskInfo (Inputs taskRun) = [] \<and>
    Outputs taskRun = [] \<longrightarrow>
      saveTaskRun_inserts g (logged db) taskRunID taskRun (s, lg) = (None, (s, lg)))"
  by (simp add: insertTaskRunInputs_empty saveTaskRun_inserts_empty)

lemma logged_db_serial:
  "db_QueryRow (logged db_serial) q args (n, lg) = ((n + 1, None), (n + 1, lg @ [(q, args)]))"
  "db_Exec (logged db_serial) q args (n, lg) = (None, (n + 1, lg @ [(q, args)]))"
  "db_Query (logged db_serial) q args (n, lg) =
     ((\<lparr>scans = map (\<lambda>i. (n + int i, None)) [0..<length args div 2], rows_Err = None\<rparr>,
       None), (n + 1, lg @ [(q, args)]))"
  by (simp_all add: logged_def db_serial_def)

lemma queryValueStr_1_2: "queryValueStr (Suc 0) 2 = ''($1, $2)''"
  by code_simp

lemma queryValuePairFirstConstStr_1: "queryValuePairFirstConstStr (Suc 0) = ''($1, $2)''"
  by code_simp

lemma saveTaskRun_serial_prefix:
  assumes "taskRun = taskrun_empty\<lparr>Inputs := i\<rparr>"
  shows "saveTaskRun g (logged db_serial) taskRun (0, []) =
     (case saveTaskRun_inserts g (logged db_serial) 4 taskRun (4,
       [(insertVCS_query, [AString ''abc'', ABool False]),
        (insertApp_query, [AString ''app'']),
        (insertTask_query, [AString ''build'', AInt 2]),
        (saveTaskRun_query,
         [AInt 1, AInt 3, AString ''sha384:00'', ATime 1, ATime 2, AString ''success''])]) of
        (Some err, s4) \<Rightarrow> ((-1, Some err), s4)
      | (None, s4) \<Rightarrow> ((4, None), s4))"
  using assms
  by (simp add: saveTaskRun_def insertVCSIfNotExist_def insertTaskIfNotExist_def
      insertAppIfNotExist_def logged_db_serial taskrun_empty_def)

lemma saveTaskRun_one_string:
  "saveTaskRun go_insertion_sort (logged db_serial) taskrun_one_string (0, []) =
     ((4, None), (6,
       [(insertVCS_query, [AString ''abc'', ABool False]),
        (insertApp_query, [AString ''app'']),
        (insertTask_query, [AString ''build'', AInt 2]),
        (saveTaskRun_query,
         [AInt 1, AInt 3, AString ''sha384:00'', ATime 1, ATime 2, AString ''success'']),
        (insertInputStrings_stmt1 @ ''($1, $2)'' @ '' '' @ insertInputStrings_stmt2,
         [AString ''x'', AString ''sha384:01'']),
        (task_run_string_input_stmt1 @ ''($1, $2)'', [AInt 4, AInt 4])]))"
proof -
  have "saveTaskRun_inserts go_insertion_sort (logged db_serial) 4 taskrun_one_string (4,
       [(insertVCS_query, [AString ''abc'', ABool False]),
        (insertApp_query, [AString ''app'']),
        (insertTask_query, [AString ''build'', AInt 2]),
        (saveTaskRun_query,
         [AInt 1, AInt 3, AString ''sha384:00'', ATime 1, ATime 2, AString ''success''])]) =
     (None, (6,
       [(insertVCS_query, [AString ''abc'', ABool False]),
        (insertApp_query, [AString ''app'']),
        (insertTask_query, [AString ''build'', AInt 2]),
        (saveTaskRun_query,
         [AInt 1, AInt 3, AString ''sha384:00'', ATime 1, ATime 2, AString ''success'']),
        (insertInputStrings_stmt1 @ ''($1, $2)'' @ '' '' @ insertInputStrings_stmt2,
         [AString ''x'', AString ''sha384:01'']),
        (task_run_string_input_stmt1 @ ''($1, $2)'', [AInt 4, AInt 4])]))"
    by (simp add: saveTaskRun_inserts_def insertTaskRunInputs_empty taskrun_one_string_def
        taskrun_empty_def insertTaskRunInputStringsIfNotExist_def insertInputStringsIfNotExist_def
        insertInputStrings_queryArgs_def clonedSortedInputStrings_def go_insertion_sort_def
        insertion_sort_def query_ids_def scanIDs_def exec_junction_def logged_db_serial
        queryValueStr_1_2 queryValuePairFirstConstStr_1)
  then show ?thesis
    by (simp add: saveTaskRun_serial_prefix[of _ "Inputs taskrun_one_string"]
        taskrun_one_string_def)
qed

theorem empty_kind_issues_no_statement_witness:
  "saveTaskRun_inserts go_insertion_sort (logged db_serial) 4 taskrun_empty (4, []) =
     (None, (4, [])) \<and>
   saveTaskRun go_insertion_sort (logged db_serial) taskrun_empty (0, []) =
     ((4, None), (4,
       [(insertVCS_query, [AString ''abc'', ABool False]),
        (insertApp_query, [AString ''app'']),
        (insertTask_query, [AString ''build'', AInt 2]),
        (saveTaskRun_query,
         [AInt 1, AInt 3, AString ''sha384:00'', ATime 1, ATime 2, AString ''success''])])) \<and>
   saveTaskRun go_insertion_sort (logged db_serial) taskrun_one_string (0, []) =
     ((4, None), (6,
       [(insertVCS_query, [AString ''abc'', ABool False]),
        (insertApp_query, [AString ''app'']),
        (insertTask_query, [AString ''build'', AInt 2]),
        (saveTaskRun_query,
         [AInt 1, AInt 3, AString ''sha384:00'', ATime 1, ATime 2, AString ''success'']),
        (insertInputStrings_stmt1 @ ''($1, $2)'' @ '' '' @ insertInputStrings_stmt2,
         [AString ''x'', AString ''sha384:01'']),
        (task_run_string_input_stmt1 @ ''($1, $2)'', [AInt 4, AInt 4])]))"
proof -
  have e: "Strings (Inputs taskrun_empty) = [] \<and> Files (Inputs taskrun_empty) = [] \<and>
    EnvironmentVariables (Inputs taskrun_empty) = [] \<and> TaskInfo (Inputs taskrun_empty) = [] \<and>
    Outputs taskrun_empty = []"
    by (simp add: taskrun_empty_def)
  have i: "\<And>s lg. saveTaskRun_inserts go_insertion_sort (logged db_serial) 4 taskrun_empty (s, lg) =
     (None, (s, lg))"
    using empty_kind_issues_no_statement[of go_insertion_sort db_serial 4 _ _ taskrun_empty] e
    by blast
  have "saveTaskRun go_insertion_sort (logged db_serial) taskrun_empty (0, []) =
     ((4, None), (4,
       [(insertVCS_query, [AString ''abc'', ABool False]),
        (insertApp_query, [AString ''app'']),
        (insertTask_query, [AString ''build'', AInt 2]),
        (saveTaskRun_query,
         [AInt 1, AInt 3, AString ''sha384:00'', ATime 1, ATime 2, AString ''success''])]))"
    by (simp add: saveTaskRun_serial_prefix[of _ "Inputs taskrun_empty"] i)
  with i saveTaskRun_one_string show ?thesis by simp
qed

section \<open>Verified properties: releases\<close>

lemma insertRelease_read_failed:
  "insertRelease tx name createdAt (Some (bs, Some rerr)) s =
     ((-1, Some (PgErrorf ''reading metadata failed: %w'' (ReadFailed rerr))), s)"
  by (simp add: insertRelease_def)

lemma insertRelease_query_result:
  assumes "md = None \<and> d = None \<or> md = Some (bs, None) \<and> d = Some bs"
    and "db_QueryRow tx insertRelease_query [AString name, ATime createdAt, ABytes d] s = ((i, r), s')"
  shows "insertRelease tx name createdAt md s =
     (case r of
        None \<Rightarrow> ((i, None), s')
      | Some err \<Rightarrow>
          if errors_As_PgError err = Some (''23505'', ''release_name_uniq'')
          then ((-1, Some ErrExists), s')
          else if md = None
          then ((-1, Some (QueryError insertRelease_query err [AString name])), s')
          else ((-1, Some (QueryError insertRelease_query err
                  [AString name, AString ''<OMITTED-RELEASE-METADATA>''])), s'))"
  using assms
  by (auto simp: insertRelease_def split: option.splits prod.splits)



lemma CreateRelease_result:
  "CreateRelease db name createdAt ids md s =
     (case insertRelease db name createdAt md s of
        ((r, Some err), s1) \<Rightarrow> (Some err, s)
      | ((releaseID, None), s1) \<Rightarrow>
          (case insertReleaseTaskRun db releaseID ids s1 of
             (Some err, s2) \<Rightarrow> (Some err, s)
           | (None, s2) \<Rightarrow> (None, s2)))"
  by (simp add: CreateRelease_def BeginFunc_def split: prod.splits option.splits)






text \<open>
  Claim C6. A call of \<open>CreateRelease\<close> with an empty list of task-run ids always
  fails and leaves the database in the state it was called in: the transaction is
  rolled back, also when the release row had been inserted. The error is
  \<open>no task run IDs were specified\<close> when the release row could be inserted;
  \<open>insertReleaseTaskRun\<close> returns it without issuing a statement. When inserting
  the release row fails, that earlier error is returned instead: \<open>ErrExists\<close> for a
  name that is already stored, the read error of the metadata, or the query error.
\<close>

theorem CreateRelease_empty:
  "(\<exists>e. CreateRelease db name createdAt [] md s = (Some e, s)) \<and>
   insertReleaseTaskRun db releaseID [] s1 =
     (Some (PgErrorsNew ''no task run IDs were specified''), s1) \<and>
   (\<forall>releaseID s1. insertRelease db name createdAt md s = ((releaseID, None), s1) \<longrightarrow>
      CreateRelease db name createdAt [] md s =
        (Some (PgErrorsNew ''no task run IDs were specified''), s)) \<and>
   (\<forall>r e s1. insertRelease db name createdAt md s = ((r, Some e), s1) \<longrightarrow>
      CreateRelease db name createdAt [] md s = (Some e, s)) \<and>
   (\<forall>d bs i s1.
      (md = None \<and> d = None \<or> md = Some (bs, None) \<and> d = Some bs) \<and>
      db_QueryRow db insertRelease_query [AString name, ATime createdAt, ABytes d] s =
        ((i, None), s1) \<longrightarrow>
      CreateRelease db name createdAt [] md s =
        (Some (PgErrorsNew ''no task run IDs were specified''), s))"
proof -
  have e: "\<And>releaseID s1. insertReleaseTaskRun db releaseID [] s1 =
     (Some (PgErrorsNew ''no task run IDs were specified''), s1)"
    by (simp add: insertReleaseTaskRun_def)
  have 1: "\<exists>e. CreateRelease db name createdAt [] md s = (Some e, s)"
    by (auto simp: CreateRelease_result e split: prod.splits option.splits)
  have 3: "\<forall>releaseID s1. insertRelease db name createdAt md s = ((releaseID, None), s1) \<longrightarrow>
      CreateRelease db name createdAt [] md s =
        (Some (PgErrorsNew ''no task run IDs were specified''), s)"
    by (simp add: CreateRelease_result e)
  have 4: "\<forall>r e s1. insertRelease db name createdAt md s = ((r, Some e), s1) \<longrightarrow>
      CreateRelease db name createdAt [] md s = (Some e, s)"
    by (simp add: CreateRelease_result)
  have 5: "\<forall>d bs i s1.
      (md = None \<and> d = None \<or> md = Some (bs, None) \<and> d = Some bs) \<and>
      db_QueryRow db insertRelease_query [AString name, ATime createdAt, ABytes d] s =
        ((i, None), s1) \<longrightarrow>
      CreateRelease db name createdAt [] md s =
        (Some (PgErrorsNew ''no task run IDs were specified''), s)"
  proof (intro allI impI)
    fix d bs i s1
    assume "(md = None \<and> d = None \<or> md = Some (bs, None) \<and> d = Some bs) \<and>
      db_QueryRow db insertRelease_query [AString name, ATime createdAt, ABytes d] s =
        ((i, None), s1)"
    then have "insertRelease db name createdAt md s = ((i, None), s1)"
      using insertRelease_query_result[of md d bs db name createdAt s i None s1] by simp
    with 3 show "CreateRelease db name createdAt [] md s =
        (Some (PgErrorsNew ''no task run IDs were specified''), s)"
      by blast
  qed
  from 1 e 3 4 5 show ?thesis by blast
qed

lemma insertRelease_registry_v2:
  "insertRelease registry_db ''v2'' 20 None registry_v1 =
     ((2, None),
      \<lparr>release_table =
         [\<lparr>release_id = 1, release_name = ''v1'', created_at = 10, metadata_of = None\<rparr>,
          \<lparr>release_id = 2, release_name = ''v2'', created_at = 20, metadata_of = None\<rparr>],
       release_task_run_table = [(1, 7)]\<rparr>)"
  by (simp add: insertRelease_def registry_db_def registry_QueryRow_def registry_v1_def)

theorem CreateRelease_empty_witness:
  "insertRelease registry_db ''v2'' 20 None registry_v1 =
     ((2, None),
      \<lparr>release_table =
         [\<lparr>release_id = 1, release_name = ''v1'', created_at = 10, metadata_of = None\<rparr>,
          \<lparr>release_id = 2, release_name = ''v2'', created_at = 20, metadata_of = None\<rparr>],
       release_task_run_table = [(1, 7)]\<rparr>) \<and>
   CreateRelease registry_db ''v2'' 20 [] None registry_v1 =
     (Some (PgErrorsNew ''no task run IDs were specified''), registry_v1) \<and>
   CreateRelease registry_db ''v2'' 20 [] (Some (''meta'', Some ''unexpected EOF'')) registry_v1 =
     (Some (PgErrorf ''reading metadata failed: %w'' (ReadFailed ''unexpected EOF'')), registry_v1)"
proof -
  have "CreateRelease registry_db ''v2'' 20 [] None registry_v1 =
     (Some (PgErrorsNew ''no task run IDs were specified''), registry_v1)"
    using CreateRelease_empty[of registry_db "''v2''" 20 None registry_v1] insertRelease_registry_v2
    by blast
  moreover have "CreateRelease registry_db ''v2'' 20 [] (Some (''meta'', Some ''unexpected EOF'')) registry_v1 =
     (Some (PgErrorf ''reading metadata failed: %w'' (ReadFailed ''unexpected EOF'')), registry_v1)"
    using CreateRelease_empty[of registry_db "''v2''" 20 "Some (''meta'', Some ''unexpected EOF'')" registry_v1]
      insertRelease_read_failed[of registry_db "''v2''" 20 "''meta''" "''unexpected EOF''" registry_v1]
    by blast
  ultimately show ?thesis using insertRelease_registry_v2 by simp
qed

text \<open>
  The claim as the specification words it, that every call with an empty list
  returns the empty-release error, does not hold: for a name that is already stored
  the call returns \<open>ErrExists\<close>.
\<close>

theorem CreateRelease_empty_counterexample:
  "\<not> (\<forall>(db :: registry dbConn) name createdAt md s.
        CreateRelease db name createdAt [] md s =
          (Some (PgErrorsNew ''no task run IDs were specified''), s))"
proof
  assume a: "\<forall>(db :: registry dbConn) name createdAt md s.
        CreateRelease db name createdAt [] md s =
          (Some (PgErrorsNew ''no task run IDs were specified''), s)"
  have "CreateRelease registry_db ''v1'' 20 [] None registry_v1 = (Some ErrExists, registry_v1)"
    by (simp add: CreateRelease_result insertRelease_def registry_db_def registry_QueryRow_def
        registry_v1_def)
  with a show False by simp
qed

section \<open>Verified properties: the order of the rows of a bulk upsert\<close>

lemma row_le_iff: "row_le r r' \<longleftrightarrow> r \<le> r'"
  by (cases r; cases r') (auto simp: row_le_def less_eq_prod_def)

lemma sorted_wrt_row_le: "sorted_wrt row_le xs = sorted xs"
proof -
  have "row_le = (\<le>)" by (intro ext) (simp add: row_le_iff)
  then show ?thesis by simp
qed

lemma sorted_rows_unique:
  assumes "sorted_wrt row_le xs" and "sorted_wrt row_le ys" and "mset xs = mset ys"
  shows "xs = ys"
proof -
  from assms have "sorted xs" "sorted ys" by (simp_all add: sorted_wrt_row_le)
  with assms(3) have "sort ys = xs" "sort ys = ys"
    by (auto intro: properties_for_sort)
  then show ?thesis by simp
qed

lemma rows2_concat: "rows2 (concat (map (\<lambda>i. [f i, h i]) xs)) = map (\<lambda>i. (f i, h i)) xs"
  by (induction xs) simp_all

lemma string_rows_concat:
  "string_rows (concat (map (\<lambda>i. [AString (f i), AString (h i)]) xs)) = map (\<lambda>i. (f i, h i)) xs"
  by (simp add: string_rows_def rows2_concat)

lemma args_of_rows:
  "concat (map (\<lambda>i. [AString (f i), AString (h i)]) xs) =
   concat (map (\<lambda>r. [AString (fst r), AString (snd r)]) (map (\<lambda>i. (f i, h i)) xs))"
  by (induction xs) simp_all

lemma not_less_Inputfiles:
  "\<not> less_Inputfiles b a \<longleftrightarrow>
     row_le (InputFile.Path a, InputFile.Digest a) (InputFile.Path b, InputFile.Digest b)"
  by (auto simp: less_Inputfiles_def strings_Compare_def row_le_def Let_def)

lemma not_less_InputStrings:
  "\<not> less_InputStrings b a \<longleftrightarrow>
     row_le (InputString.String a, InputString.Digest a) (InputString.String b, InputString.Digest b)"
  by (auto simp: less_InputStrings_def strings_Compare_def row_le_def Let_def)

lemma not_less_InputEnvVars:
  "\<not> less_InputEnvVars b a \<longleftrightarrow>
     row_le (InputEnvVar.Name a, InputEnvVar.Digest a) (InputEnvVar.Name b, InputEnvVar.Digest b)"
  by (auto simp: less_InputEnvVars_def row_le_def)

lemma not_cmp_InputTasks:
  "\<not> cmp_InputTasks b a < 0 \<longleftrightarrow>
     row_le (InputTaskInfo.Name a, InputTaskInfo.Digest a) (InputTaskInfo.Name b, InputTaskInfo.Digest b)"
  by (auto simp: cmp_InputTasks_def cmp_Compare_def row_le_def Let_def)

text \<open>What a sorter that keeps its promise gives for a comparison that orders by rows.\<close>

lemma sorted_rows:
  assumes s: "sorts srt lt" and k: "\<And>a b. \<not> lt b a \<longleftrightarrow> row_le (key a) (key b)"
  shows "sorted_wrt row_le (map key (srt lt xs))"
    and "mset (map key (srt lt xs)) = mset (map key xs)"
proof -
  from s have a: "sorted_wrt (\<lambda>a b. \<not> lt b a) (srt lt xs)" and b: "mset (srt lt xs) = mset xs"
    by (auto simp: sorts_def)
  from a show "sorted_wrt row_le (map key (srt lt xs))"
    by (simp add: sorted_wrt_map k)
  from b show "mset (map key (srt lt xs)) = mset (map key xs)"
    by (metis mset_map)
qed

lemma sorted_rows_determined:
  assumes s: "sorts srt lt" and k: "\<And>a b. \<not> lt b a \<longleftrightarrow> row_le (key a) (key b)"
    and m: "mset (map key xs) = mset (map key ys)"
  shows "map key (srt lt xs) = map key (srt lt ys)"
  using sorted_rows[OF s k, of xs] sorted_rows[OF s k, of ys] m
  by (intro sorted_rows_unique) simp_all

lemma sorts_length: "sorts srt lt \<Longrightarrow> length (srt lt xs) = length xs"
  by (metis sorts_def size_mset)

lemma query_ids_logged:
  "snd (snd (query_ids (logged db) q args (s, lg))) = lg @ [(q, args)]"
  by (simp add: query_ids_def logged_def split: prod.splits option.splits)

lemma sorted_by_key:
  assumes s: "sorts srt lt" and k: "\<And>a b. \<not> lt b a \<longleftrightarrow> row_le (key a) (key b)"
  shows "sorted_wrt (\<lambda>a b. fst (key a) < fst (key b) \<or>
           fst (key a) = fst (key b) \<and> snd (key a) \<le> snd (key b)) (srt lt xs)"
proof -
  have "(\<lambda>a b. \<not> lt b a) =
        (\<lambda>a b. fst (key a) < fst (key b) \<or> fst (key a) = fst (key b) \<and> snd (key a) \<le> snd (key b))"
    by (intro ext) (simp add: k row_le_def)
  with s show ?thesis by (simp add: sorts_def)
qed

lemma files_rows:
  assumes "sorts (sort_files g) less_Inputfiles"
  shows "insertInputFiles_queryArgs g xs =
            concat (map (\<lambda>i. [AString (InputFile.Path i), AString (InputFile.Digest i)]) (clonedSortedInputfiles g xs))"
    and "sorted_wrt (\<lambda>a b. InputFile.Path a < InputFile.Path b \<or> InputFile.Path a = InputFile.Path b \<and> InputFile.Digest a \<le> InputFile.Digest b)
            (clonedSortedInputfiles g xs)"
    and "mset (clonedSortedInputfiles g xs) = mset xs"
    and "(mset xs = mset ys \<longrightarrow> insertInputFiles_queryArgs g xs = insertInputFiles_queryArgs g ys)"
    and "snd (snd (insertInputFilesIfNotExist g (logged db) xs (s, lg))) =
            lg @ [(insertInputFiles_stmt1 @ queryValueStr (length xs) 2 @ '' '' @ insertInputFiles_stmt2,
                   insertInputFiles_queryArgs g xs)]"
proof -
  let ?key = "\<lambda>i. (InputFile.Path i, InputFile.Digest i)"
  have k: "\<And>a b. \<not> less_Inputfiles b a \<longleftrightarrow> row_le (?key a) (?key b)"
    by (rule not_less_Inputfiles)
  show "insertInputFiles_queryArgs g xs =
   concat (map (\<lambda>i. [AString (InputFile.Path i), AString (InputFile.Digest i)]) (clonedSortedInputfiles g xs))"
    by (simp add: insertInputFiles_queryArgs_def)
  show "sorted_wrt (\<lambda>a b. InputFile.Path a < InputFile.Path b \<or> InputFile.Path a = InputFile.Path b \<and> InputFile.Digest a \<le> InputFile.Digest b)
   (clonedSortedInputfiles g xs)"
    using sorted_by_key[OF assms k, of xs] by (simp add: clonedSortedInputfiles_def)
  show "mset (clonedSortedInputfiles g xs) = mset xs"
    using assms by (simp add: clonedSortedInputfiles_def sorts_def)
  show "mset xs = mset ys \<longrightarrow> insertInputFiles_queryArgs g xs = insertInputFiles_queryArgs g ys"
  proof
    assume "mset xs = mset ys"
    then have "mset (map ?key xs) = mset (map ?key ys)" by simp
    then have "map ?key (sort_files g less_Inputfiles xs) = map ?key (sort_files g less_Inputfiles ys)"
      by (rule sorted_rows_determined[OF assms k])
    then show "insertInputFiles_queryArgs g xs = insertInputFiles_queryArgs g ys"
      unfolding insertInputFiles_queryArgs_def clonedSortedInputfiles_def
      by (subst (1 2) args_of_rows) simp
  qed
  show "snd (snd (insertInputFilesIfNotExist g (logged db) xs (s, lg))) =
   lg @ [(insertInputFiles_stmt1 @ queryValueStr (length xs) 2 @ '' '' @ insertInputFiles_stmt2,
          insertInputFiles_queryArgs g xs)]"
    by (simp add: insertInputFilesIfNotExist_def Let_def query_ids_logged
        clonedSortedInputfiles_def sorts_length[OF assms])
qed

lemma strings_rows:
  assumes "sorts (sort_strings g) less_InputStrings"
  shows "insertInputStrings_queryArgs g xs =
            concat (map (\<lambda>i. [AString (InputString.String i), AString (InputString.Digest i)]) (clonedSortedInputStrings g xs))"
    and "sorted_wrt (\<lambda>a b. InputString.String a < InputString.String b \<or> InputString.String a = InputString.String b \<and> InputString.Digest a \<le> InputString.Digest b)
            (clonedSortedInputStrings g xs)"
    and "mset (clonedSortedInputStrings g xs) = mset xs"
    and "(mset xs = mset ys \<longrightarrow> insertInputStrings_queryArgs g xs = insertInputStrings_queryArgs g ys)"
    and "snd (snd (insertInputStringsIfNotExist g (logged db) xs (s, lg))) =
            lg @ [(insertInputStrings_stmt1 @ queryValueStr (length xs) 2 @ '' '' @ insertInputStrings_stmt2,
                   insertInputStrings_queryArgs g xs)]"
proof -
  let ?key = "\<lambda>i. (InputString.String i, InputString.Digest i)"
  have k: "\<And>a b. \<not> less_InputStrings b a \<longleftrightarrow> row_le (?key a) (?key b)"
    by (rule not_less_InputStrings)
  show "insertInputStrings_queryArgs g xs =
   concat (map (\<lambda>i. [AString (InputString.String i), AString (InputString.Digest i)]) (clonedSortedInputStrings g xs))"
    by (simp add: insertInputStrings_queryArgs_def)
  show "sorted_wrt (\<lambda>a b. InputString.String a < InputString.String b \<or> InputString.String a = InputString.String b \<and> InputString.Digest a \<le> InputString.Digest b)
   (clonedSortedInputStrings g xs)"
    using sorted_by_key[OF assms k, of xs] by (simp add: clonedSortedInputStrings_def)
  show "mset (clonedSortedInputStrings g xs) = mset xs"
    using assms by (simp add: clonedSortedInputStrings_def sorts_def)
  show "mset xs = mset ys \<longrightarrow> insertInputStrings_queryArgs g xs = insertInputStrings_queryArgs g ys"
  proof
    assume "mset xs = mset ys"
    then have "mset (map ?key xs) = mset (map ?key ys)" by simp
    then have "map ?key (sort_strings g less_InputStrings xs) = map ?key (sort_strings g less_InputStrings ys)"
      by (rule sorted_rows_determined[OF assms k])
    then show "insertInputStrings_queryArgs g xs = insertInputStrings_queryArgs g ys"
      unfolding insertInputStrings_queryArgs_def clonedSortedInputStrings_def
      by (subst (1 2) args_of_rows) simp
  qed
  show "snd (snd (insertInputStringsIfNotExist g (logged db) xs (s, lg))) =
   lg @ [(insertInputStrings_stmt1 @ queryValueStr (length xs) 2 @ '' '' @ insertInputStrings_stmt2,
          insertInputStrings_queryArgs g xs)]"
    by (simp add: insertInputStringsIfNotExist_def Let_def query_ids_logged
        clonedSortedInputStrings_def sorts_length[OF assms])
qed

lemma envvars_rows:
  assumes "sorts (sort_envvars g) less_InputEnvVars"
  shows "insertInputEnVars_queryArgs g xs =
            concat (map (\<lambda>i. [AString (InputEnvVar.Name i), AString (InputEnvVar.Digest i)]) (clonedSortedInputEnvVars g xs))"
    and "sorted_wrt (\<lambda>a b. InputEnvVar.Name a < InputEnvVar.Name b \<or> InputEnvVar.Name a = InputEnvVar.Name b \<and> InputEnvVar.Digest a \<le> InputEnvVar.Digest b)
            (clonedSortedInputEnvVars g xs)"
    and "mset (clonedSortedInputEnvVars g xs) = mset xs"
    and "(mset xs = mset ys \<longrightarrow> insertInputEnVars_queryArgs g xs = insertInputEnVars_queryArgs g ys)"
    and "snd (snd (insertInputEnVarsIfNotExist g (logged db) xs (s, lg))) =
            lg @ [(insertInputEnVars_stmt1 @ queryValueStr (length xs) 2 @ '' '' @ insertInputEnVars_stmt2,
                   insertInputEnVars_queryArgs g xs)]"
proof -
  let ?key = "\<lambda>i. (InputEnvVar.Name i, InputEnvVar.Digest i)"
  have k: "\<And>a b. \<not> less_InputEnvVars b a \<longleftrightarrow> row_le (?key a) (?key b)"
    by (rule not_less_InputEnvVars)
  show "insertInputEnVars_queryArgs g xs =
   concat (map (\<lambda>i. [AString (InputEnvVar.Name i), AString (InputEnvVar.Digest i)]) (clonedSortedInputEnvVars g xs))"
    by (simp add: insertInputEnVars_queryArgs_def)
  show "sorted_wrt (\<lambda>a b. InputEnvVar.Name a < InputEnvVar.Name b \<or> InputEnvVar.Name a = InputEnvVar.Name b \<and> InputEnvVar.Digest a \<le> InputEnvVar.Digest b)
   (clonedSortedInputEnvVars g xs)"
    using sorted_by_key[OF assms k, of xs] by (simp add: clonedSortedInputEnvVars_def)
  show "mset (clonedSortedInputEnvVars g xs) = mset xs"
    using assms by (simp add: clonedSortedInputEnvVars_def sorts_def)
  show "mset xs = mset ys \<longrightarrow> insertInputEnVars_queryArgs g xs = insertInputEnVars_queryArgs g ys"
  proof
    assume "mset xs = mset ys"
    then have "mset (map ?key xs) = mset (map ?key ys)" by simp
    then have "map ?key (sort_envvars g less_InputEnvVars xs) = map ?key (sort_envvars g less_InputEnvVars ys)"
      by (rule sorted_rows_determined[OF assms k])
    then show "insertInputEnVars_queryArgs g xs = insertInputEnVars_queryArgs g ys"
      unfolding insertInputEnVars_queryArgs_def clonedSortedInputEnvVars_def
      by (subst (1 2) args_of_rows) simp
  qed
  show "snd (snd (insertInputEnVarsIfNotExist g (logged db) xs (s, lg))) =
   lg @ [(insertInputEnVars_stmt1 @ queryValueStr (length xs) 2 @ '' '' @ insertInputEnVars_stmt2,
          insertInputEnVars_queryArgs g xs)]"
    by (simp add: insertInputEnVarsIfNotExist_def Let_def query_ids_logged
        clonedSortedInputEnvVars_def sorts_length[OF assms])
qed

lemma tasks_rows:
  assumes "sorts (sort_tasks g) (\<lambda>a b. cmp_InputTasks a b < 0)"
  shows "insertInputTask_queryArgs g xs =
            concat (map (\<lambda>i. [AString (InputTaskInfo.Name i), AString (InputTaskInfo.Digest i)]) (clonedSortedInputTasks g xs))"
    and "sorted_wrt (\<lambda>a b. InputTaskInfo.Name a < InputTaskInfo.Name b \<or> InputTaskInfo.Name a = InputTaskInfo.Name b \<and> InputTaskInfo.Digest a \<le> InputTaskInfo.Digest b)
            (clonedSortedInputTasks g xs)"
    and "mset (clonedSortedInputTasks g xs) = mset xs"
    and "(mset xs = mset ys \<longrightarrow> insertInputTask_queryArgs g xs = insertInputTask_queryArgs g ys)"
    and "snd (snd (insertInputTaskIfNotExist g (logged db) xs (s, lg))) =
            lg @ [(insertInputTask_stmt1 @ queryValueStr (length xs) 2 @ '' '' @ insertInputTask_stmt2,
                   insertInputTask_queryArgs g xs)]"
proof -
  let ?key = "\<lambda>i. (InputTaskInfo.Name i, InputTaskInfo.Digest i)"
  have k: "\<And>a b. \<not> (\<lambda>a b. cmp_InputTasks a b < 0) b a \<longleftrightarrow> row_le (?key a) (?key b)"
    by (rule not_cmp_InputTasks)
  show "insertInputTask_queryArgs g xs =
   concat (map (\<lambda>i. [AString (InputTaskInfo.Name i), AString (InputTaskInfo.Digest i)]) (clonedSortedInputTasks g xs))"
    by (simp add: insertInputTask_queryArgs_def)
  show "sorted_wrt (\<lambda>a b. InputTaskInfo.Name a < InputTaskInfo.Name b \<or> InputTaskInfo.Name a = InputTaskInfo.Name b \<and> InputTaskInfo.Digest a \<le> InputTaskInfo.Digest b)
   (clonedSortedInputTasks g xs)"
    using sorted_by_key[OF assms k, of xs] by (simp add: clonedSortedInputTasks_def)
  show "mset (clonedSortedInputTasks g xs) = mset xs"
    using assms by (simp add: clonedSortedInputTasks_def sorts_def)
  show "mset xs = mset ys \<longrightarrow> insertInputTask_queryArgs g xs = insertInputTask_queryArgs g ys"
  proof
    assume "mset xs = mset ys"
    then have "mset (map ?key xs) = mset (map ?key ys)" by simp
    then have "map ?key (sort_tasks g (\<lambda>a b. cmp_InputTasks a b < 0) xs) = map ?key (sort_tasks g (\<lambda>a b. cmp_InputTasks a b < 0) ys)"
      by (rule sorted_rows_determined[OF assms k])
    then show "insertInputTask_queryArgs g xs = insertInputTask_queryArgs g ys"
      unfolding insertInputTask_queryArgs_def clonedSortedInputTasks_def
      by (subst (1 2) args_of_rows) simp
  qed
  show "snd (snd (insertInputTaskIfNotExist g (logged db) xs (s, lg))) =
   lg @ [(insertInputTask_stmt1 @ queryValueStr (length xs) 2 @ '' '' @ insertInputTask_stmt2,
          insertInputTask_queryArgs g xs)]"
    by (simp add: insertInputTaskIfNotExist_def Let_def query_ids_logged
        clonedSortedInputTasks_def sorts_length[OF assms])
qed

lemma mset_insert_by: "mset (insert_by lt x xs) = add_mset x (mset xs)"
  by (induction xs) simp_all

lemma set_insert_by: "set (insert_by lt x xs) = insert x (set xs)"
  by (induction xs) auto

lemma sorted_insert_by:
  assumes k: "\<And>a b. \<not> lt b a \<longleftrightarrow> row_le (key a) (key b)"
    and s: "sorted_wrt (\<lambda>a b. \<not> lt b a) xs"
  shows "sorted_wrt (\<lambda>a b. \<not> lt b a) (insert_by lt x xs)"
  using s
proof (induction xs)
  case Nil
  then show ?case by simp
next
  case (Cons y ys)
  have le: "\<And>a b. \<not> lt b a \<longleftrightarrow> key a \<le> key b" by (simp add: k row_le_iff)
  show ?case
  proof (cases "lt y x")
    case True
    then have "\<not> lt x y" using le[of x y] le[of y x] by auto
    with True Cons show ?thesis by (auto simp: set_insert_by)
  next
    case False
    then have xy: "key x \<le> key y" using le by simp
    have "\<forall>z\<in>set ys. \<not> lt z x"
    proof
      fix z assume "z \<in> set ys"
      with Cons.prems have "key y \<le> key z" using le by auto
      with xy have "key x \<le> key z" by (rule order_trans)
      then show "\<not> lt z x" using le by simp
    qed
    with False Cons.prems show ?thesis by auto
  qed
qed

lemma sorts_insertion_sort:
  assumes k: "\<And>a b. \<not> lt b a \<longleftrightarrow> row_le (key a) (key b)"
  shows "sorts insertion_sort lt"
proof -
  have "mset (insertion_sort lt xs) = mset xs" for xs
    by (induction xs) (simp_all add: insertion_sort_def mset_insert_by)
  moreover have "sorted_wrt (\<lambda>a b. \<not> lt b a) (insertion_sort lt xs)" for xs
  proof (induction xs)
    case Nil
    then show ?case by (simp add: insertion_sort_def)
  next
    case (Cons x xs)
    then show ?case
      using sorted_insert_by[OF k, where xs = "insertion_sort lt xs" and x = x]
      by (simp add: insertion_sort_def)
  qed
  ultimately show ?thesis by (simp add: sorts_def)
qed

lemma go_insertion_sort_sorts:
  "sorts (sort_files go_insertion_sort) less_Inputfiles"
  "sorts (sort_strings go_insertion_sort) less_InputStrings"
  "sorts (sort_envvars go_insertion_sort) less_InputEnvVars"
  "sorts (sort_tasks go_insertion_sort) (\<lambda>a b. cmp_InputTasks a b < 0)"
  using sorts_insertion_sort[OF not_less_Inputfiles] sorts_insertion_sort[OF not_less_InputStrings]
    sorts_insertion_sort[OF not_less_InputEnvVars] sorts_insertion_sort[OF not_cmp_InputTasks]
  by (simp_all add: go_insertion_sort_def)

text \<open>
  Claim C1. For each kind of input (files, strings, environment variables, task
  infos) the arguments of the bulk upsert are the pairs (primary attribute, digest)
  of the sorted copy of the inputs, in its order; the sorted copy is a rearrangement
  of the inputs that ascends by the primary attribute (path, string or name) and,
  for equal primary attributes, by the digest, both compared as byte strings. The
  arguments are the same for every order the caller hands the same inputs in. They
  are what the query receives: on a connection that records its statements, the
  insert function records the one upsert statement with exactly these arguments.
  The sorting algorithm of Go's library is a parameter \<open>g\<close>, assumed to return a
  rearrangement of its input in which no element is less than an earlier one.
\<close>

theorem inputs_sorted_before_insert:
  assumes "sorts (sort_files g) less_Inputfiles"
    and "sorts (sort_strings g) less_InputStrings"
    and "sorts (sort_envvars g) less_InputEnvVars"
    and "sorts (sort_tasks g) (\<lambda>a b. cmp_InputTasks a b < 0)"
  shows
    "insertInputFiles_queryArgs g files =
        concat (map (\<lambda>i. [AString (InputFile.Path i), AString (InputFile.Digest i)]) (clonedSortedInputfiles g files)) \<and>
     sorted_wrt (\<lambda>a b. InputFile.Path a < InputFile.Path b \<or> InputFile.Path a = InputFile.Path b \<and> InputFile.Digest a \<le> InputFile.Digest b)
        (clonedSortedInputfiles g files) \<and>
     mset (clonedSortedInputfiles g files) = mset files \<and>
     (mset files = mset files' \<longrightarrow> insertInputFiles_queryArgs g files = insertInputFiles_queryArgs g files') \<and>
     snd (snd (insertInputFilesIfNotExist g (logged db) files (s, lg))) =
        lg @ [(insertInputFiles_stmt1 @ queryValueStr (length files) 2 @ '' '' @ insertInputFiles_stmt2,
               insertInputFiles_queryArgs g files)] \<and>
     insertInputStrings_queryArgs g strs =
        concat (map (\<lambda>i. [AString (InputString.String i), AString (InputString.Digest i)]) (clonedSortedInputStrings g strs)) \<and>
     sorted_wrt (\<lambda>a b. InputString.String a < InputString.String b \<or> InputString.String a = InputString.String b \<and> InputString.Digest a \<le> InputString.Digest b)
        (clonedSortedInputStrings g strs) \<and>
     mset (clonedSortedInputStrings g strs) = mset strs \<and>
     (mset strs = mset strs' \<longrightarrow> insertInputStrings_queryArgs g strs = insertInputStrings_queryArgs g strs') \<and>
     snd (snd (insertInputStringsIfNotExist g (logged db) strs (s, lg))) =
        lg @ [(insertInputStrings_stmt1 @ queryValueStr (length strs) 2 @ '' '' @ insertInputStrings_stmt2,
               insertInputStrings_queryArgs g strs)] \<and>
     insertInputEnVars_queryArgs g envs =
        concat (map (\<lambda>i. [AString (InputEnvVar.Name i), AString (InputEnvVar.Digest i)]) (clonedSortedInputEnvVars g envs)) \<and>
     sorted_wrt (\<lambda>a b. InputEnvVar.Name a < InputEnvVar.Name b \<or> InputEnvVar.Name a = InputEnvVar.Name b \<and> InputEnvVar.Digest a \<le> InputEnvVar.Digest b)
        (clonedSortedInputEnvVars g envs) \<and>
     mset (clonedSortedInputEnvVars g envs) = mset envs \<and>
     (mset envs = mset envs' \<longrightarrow> insertInputEnVars_queryArgs g envs = insertInputEnVars_queryArgs g envs') \<and>
     snd (snd (insertInputEnVarsIfNotExist g (logged db) envs (s, lg))) =
        lg @ [(insertInputEnVars_stmt1 @ queryValueStr (length envs) 2 @ '' '' @ insertInputEnVars_stmt2,
               insertInputEnVars_queryArgs g envs)] \<and>
     insertInputTask_queryArgs g tasks =
        concat (map (\<lambda>i. [AString (InputTaskInfo.Name i), AString (InputTaskInfo.Digest i)]) (clonedSortedInputTasks g tasks)) \<and>
     sorted_wrt (\<lambda>a b. InputTaskInfo.Name a < InputTaskInfo.Name b \<or> InputTaskInfo.Name a = InputTaskInfo.Name b \<and> InputTaskInfo.Digest a \<le> InputTaskInfo.Digest b)
        (clonedSortedInputTasks g tasks) \<and>
     mset (clonedSortedInputTasks g tasks) = mset tasks \<and>
     (mset tasks = mset tasks' \<longrightarrow> insertInputTask_queryArgs g tasks = insertInputTask_queryArgs g tasks') \<and>
     snd (snd (insertInputTaskIfNotExist g (logged db) tasks (s, lg))) =
        lg @ [(insertInputTask_stmt1 @ queryValueStr (length tasks) 2 @ '' '' @ insertInputTask_stmt2,
               insertInputTask_queryArgs g tasks)]"
proof -
  have c1: "insertInputFiles_queryArgs g files =
        concat (map (\<lambda>i. [AString (InputFile.Path i), AString (InputFile.Digest i)]) (clonedSortedInputfiles g files))"
    by (rule files_rows(1)[OF assms(1), where xs = files])
  have c2: "sorted_wrt (\<lambda>a b. InputFile.Path a < InputFile.Path b \<or> InputFile.Path a = InputFile.Path b \<and> InputFile.Digest a \<le> InputFile.Digest b)
        (clonedSortedInputfiles g files)"
    by (rule files_rows(2)[OF assms(1), where xs = files])
  have c3: "mset (clonedSortedInputfiles g files) = mset files"
    by (rule files_rows(3)[OF assms(1), where xs = files])
  have c4: "(mset files = mset files' \<longrightarrow> insertInputFiles_queryArgs g files = insertInputFiles_queryArgs g files')"
    by (rule files_rows(4)[OF assms(1), where xs = files and ys = "files'"])
  have c5: "snd (snd (insertInputFilesIfNotExist g (logged db) files (s, lg))) =
        lg @ [(insertInputFiles_stmt1 @ queryValueStr (length files) 2 @ '' '' @ insertInputFiles_stmt2,
               insertInputFiles_queryArgs g files)]"
    by (rule files_rows(5)[OF assms(1), where xs = files and db = db and s = s and lg = lg])
  have c6: "insertInputStrings_queryArgs g strs =
        concat (map (\<lambda>i. [AString (InputString.String i), AString (InputString.Digest i)]) (clonedSortedInputStrings g strs))"
    by (rule strings_rows(1)[OF assms(2), where xs = strs])
  have c7: "sorted_wrt (\<lambda>a b. InputString.String a < InputString.String b \<or> InputString.String a = InputString.String b \<and> InputString.Digest a \<le> InputString.Digest b)
        (clonedSortedInputStrings g strs)"
    by (rule strings_rows(2)[OF assms(2), where xs = strs])
  have c8: "mset (clonedSortedInputStrings g strs) = mset strs"
    by (rule strings_rows(3)[OF assms(2), where xs = strs])
  have c9: "(mset strs = mset strs' \<longrightarrow> insertInputStrings_queryArgs g strs = insertInputStrings_queryArgs g strs')"
    by (rule strings_rows(4)[OF assms(2), where xs = strs and ys = "strs'"])
  have c10: "snd (snd (insertInputStringsIfNotExist g (logged db) strs (s, lg))) =
        lg @ [(insertInputStrings_stmt1 @ queryValueStr (length strs) 2 @ '' '' @ insertInputStrings_stmt2,
               insertInputStrings_queryArgs g strs)]"
    by (rule strings_rows(5)[OF assms(2), where xs = strs and db = db and s = s and lg = lg])
  have c11: "insertInputEnVars_queryArgs g envs =
        concat (map (\<lambda>i. [AString (InputEnvVar.Name i), AString (InputEnvVar.Digest i)]) (clonedSortedInputEnvVars g envs))"
    by (rule envvars_rows(1)[OF assms(3), where xs = envs])
  have c12: "sorted_wrt (\<lambda>a b. InputEnvVar.Name a < InputEnvVar.Name b \<or> InputEnvVar.Name a = InputEnvVar.Name b \<and> InputEnvVar.Digest a \<le> InputEnvVar.Digest b)
        (clonedSortedInputEnvVars g envs)"
    by (rule envvars_rows(2)[OF assms(3), where xs = envs])
  have c13: "mset (clonedSortedInputEnvVars g envs) = mset envs"
    by (rule envvars_rows(3)[OF assms(3), where xs = envs])
  have c14: "(mset envs = mset envs' \<longrightarrow> insertInputEnVars_queryArgs g envs = insertInputEnVars_queryArgs g envs')"
    by (rule envvars_rows(4)[OF assms(3), where xs = envs and ys = "envs'"])
  have c15: "snd (snd (insertInputEnVarsIfNotExist g (logged db) envs (s, lg))) =
        lg @ [(insertInputEnVars_stmt1 @ queryValueStr (length envs) 2 @ '' '' @ insertInputEnVars_stmt2,
               insertInputEnVars_queryArgs g envs)]"
    by (rule envvars_rows(5)[OF assms(3), where xs = envs and db = db and s = s and lg = lg])
  have c16: "insertInputTask_queryArgs g tasks =
        concat (map (\<lambda>i. [AString (InputTaskInfo.Name i), AString (InputTaskInfo.Digest i)]) (clonedSortedInputTasks g tasks))"
    by (rule tasks_rows(1)[OF assms(4), where xs = tasks])
  have c17: "sorted_wrt (\<lambda>a b. InputTaskInfo.Name a < InputTaskInfo.Name b \<or> InputTaskInfo.Name a = InputTaskInfo.Name b \<and> InputTaskInfo.Digest a \<le> InputTaskInfo.Digest b)
        (clonedSortedInputTasks g tasks)"
    by (rule tasks_rows(2)[OF assms(4), where xs = tasks])
  have c18: "mset (clonedSortedInputTasks g tasks) = mset tasks"
    by (rule tasks_rows(3)[OF assms(4), where xs = tasks])
  have c19: "(mset tasks = mset tasks' \<longrightarrow> insertInputTask_queryArgs g tasks = insertInputTask_queryArgs g tasks')"
    by (rule tasks_rows(4)[OF assms(4), where xs = tasks and ys = "tasks'"])
  have c20: "snd (snd (insertInputTaskIfNotExist g (logged db) tasks (s, lg))) =
        lg @ [(insertInputTask_stmt1 @ queryValueStr (length tasks) 2 @ '' '' @ insertInputTask_stmt2,
               insertInputTask_queryArgs g tasks)]"
    by (rule tasks_rows(5)[OF assms(4), where xs = tasks and db = db and s = s and lg = lg])
  show ?thesis
    by (intro conjI) (rule c1 c2 c3 c4 c5 c6 c7 c8 c9 c10 c11 c12 c13 c14 c15 c16 c17 c18 c19 c20)+
qed

theorem inputs_sorted_before_insert_witness:
  "insertInputFiles_queryArgs go_insertion_sort
     [\<lparr>Path = ''b'', Digest = ''2''\<rparr>, \<lparr>Path = ''a'', Digest = ''9''\<rparr>, \<lparr>Path = ''a'', Digest = ''1''\<rparr>] =
     [AString ''a'', AString ''1'', AString ''a'', AString ''9'', AString ''b'', AString ''2''] \<and>
   insertInputFiles_queryArgs go_insertion_sort
     [\<lparr>Path = ''a'', Digest = ''9''\<rparr>, \<lparr>Path = ''a'', Digest = ''1''\<rparr>, \<lparr>Path = ''b'', Digest = ''2''\<rparr>] =
     [AString ''a'', AString ''1'', AString ''a'', AString ''9'', AString ''b'', AString ''2''] \<and>
   snd (snd (insertInputFilesIfNotExist go_insertion_sort (logged db_serial)
     [\<lparr>Path = ''b'', Digest = ''2''\<rparr>, \<lparr>Path = ''a'', Digest = ''9''\<rparr>, \<lparr>Path = ''a'', Digest = ''1''\<rparr>]
     (0, []))) =
     [(insertInputFiles_stmt1 @ ''($1, $2),  ($3, $4),  ($5, $6)'' @ '' '' @ insertInputFiles_stmt2,
       [AString ''a'', AString ''1'', AString ''a'', AString ''9'', AString ''b'', AString ''2''])]"
proof -
  let ?xs = "[\<lparr>Path = ''b'', Digest = ''2''\<rparr>, \<lparr>Path = ''a'', Digest = ''9''\<rparr>,
              \<lparr>Path = ''a'', Digest = ''1''\<rparr>]"
  let ?ys = "[\<lparr>Path = ''a'', Digest = ''9''\<rparr>, \<lparr>Path = ''a'', Digest = ''1''\<rparr>,
              \<lparr>Path = ''b'', Digest = ''2''\<rparr>]"
  note T = inputs_sorted_before_insert[OF go_insertion_sort_sorts,
      where files = ?xs and files' = ?ys and db = db_serial and s = 0 and lg = "[]"]
  have a: "insertInputFiles_queryArgs go_insertion_sort ?xs =
     [AString ''a'', AString ''1'', AString ''a'', AString ''9'', AString ''b'', AString ''2'']"
    by (simp add: insertInputFiles_queryArgs_def clonedSortedInputfiles_def go_insertion_sort_def
        insertion_sort_def less_Inputfiles_def strings_Compare_def)
  have m: "mset ?xs = mset ?ys" by simp
  with T have "insertInputFiles_queryArgs go_insertion_sort ?xs =
               insertInputFiles_queryArgs go_insertion_sort ?ys"
    by blast
  with a have b: "insertInputFiles_queryArgs go_insertion_sort ?ys =
     [AString ''a'', AString ''1'', AString ''a'', AString ''9'', AString ''b'', AString ''2'']"
    by simp
  have q: "queryValueStr (length ?xs) 2 = ''($1, $2),  ($3, $4),  ($5, $6)''"
    by code_simp
  from T have "snd (snd (insertInputFilesIfNotExist go_insertion_sort (logged db_serial) ?xs (0, []))) =
     [] @ [(insertInputFiles_stmt1 @ queryValueStr (length ?xs) 2 @ '' '' @ insertInputFiles_stmt2,
       insertInputFiles_queryArgs go_insertion_sort ?xs)]"
    by blast
  with a b q show ?thesis by simp
qed

section \<open>Verified properties: the serialization round trip\<close>

declare be_bytes.simps [simp del]

lemma be_bytes_0: "be_bytes 0 = []"
  by (simp add: be_bytes.simps)

lemma be_bytes_pos: "n > 0 \<Longrightarrow> be_bytes n = be_bytes (n div 256) @ [char_of (n mod 256)]"
  by (subst be_bytes.simps) simp

lemma be_nat_snoc: "be_nat (bs @ [c]) = be_nat bs * 256 + of_char c"
  by (simp add: be_nat_def)

lemma be_nat_be_bytes: "be_nat (be_bytes n) = n"
proof (induction n rule: less_induct)
  case (less n)
  show ?case
  proof (cases "n = 0")
    case True
    then show ?thesis by (simp add: be_bytes_0 be_nat_def)
  next
    case False
    then have "n div 256 < n" by simp
    with less have "be_nat (be_bytes (n div 256)) = n div 256" by simp
    with False show ?thesis by (simp add: be_bytes_pos be_nat_snoc)
  qed
qed

lemma length_be_bytes: "n < 256 ^ k \<Longrightarrow> length (be_bytes n) \<le> k"
proof (induction k arbitrary: n)
  case 0
  then show ?case by (simp add: be_bytes_0)
next
  case (Suc k)
  show ?case
  proof (cases "n = 0")
    case True
    then show ?thesis by (simp add: be_bytes_0)
  next
    case False
    from Suc.prems have "n div 256 < 256 ^ k"
      by (simp add: less_mult_imp_div_less mult.commute)
    with Suc.IH have "length (be_bytes (n div 256)) \<le> k" by simp
    with False show ?thesis by (simp add: be_bytes_pos)
  qed
qed

lemma length_be_bytes_pos: "n > 0 \<Longrightarrow> length (be_bytes n) \<ge> 1"
  by (simp add: be_bytes_pos)

lemma decodeUint_encodeUint:
  assumes "n < 18446744073709551616"
  shows "decodeUint (encodeUint n @ rest) = Some (n, rest)"
proof (cases "n \<le> 0x7F")
  case True
  with assms show ?thesis by (simp add: decodeUint_def encodeUint_def)
next
  case False
  let ?L = "length (be_bytes n)"
  from assms have "n < 256 ^ 8" by simp
  then have l8: "?L \<le> 8" by (rule length_be_bytes)
  from False have "n > 0" by simp
  then have l1: "?L \<ge> 1" by (rule length_be_bytes_pos)
  from l1 l8 have oc: "(of_char (char_of (256 - ?L)) :: nat) = 256 - ?L" by simp
  from l1 l8 have big: "\<not> (256 - ?L \<le> (0x7F :: nat))" by simp
  from l1 l8 have bk: "256 - (256 - ?L) = ?L" by simp
  from l8 have n8: "\<not> 8 < ?L" by simp
  from assms False show ?thesis
    by (simp add: decodeUint_def encodeUint_def Let_def oc big bk n8 be_nat_be_bytes
        del: of_char_of)
qed

lemma decodeInt_encodeInt:
  assumes "- 4611686018427387904 \<le> i" and "i < 4611686018427387904"
  shows "decodeInt (encodeInt i @ rest) = Some (i, rest)"
proof (cases "i < 0")
  case True
  with assms have "2 * nat (- i - 1) + 1 < 18446744073709551616" by simp
  then have "decodeUint (encodeUint (2 * nat (- i - 1) + 1) @ rest) =
               Some (2 * nat (- i - 1) + 1, rest)"
    by (rule decodeUint_encodeUint)
  with True show ?thesis by (simp add: decodeInt_def encodeInt_def)
next
  case False
  with assms have "2 * nat i < 18446744073709551616" by simp
  then have "decodeUint (encodeUint (2 * nat i) @ rest) = Some (2 * nat i, rest)"
    by (rule decodeUint_encodeUint)
  with False show ?thesis by (simp add: decodeInt_def encodeInt_def)
qed

lemma decString_encString:
  assumes "length s < 18446744073709551616"
  shows "decString (encString s @ rest) = Some (s, rest)"
  using decodeUint_encodeUint[OF assms, of "s @ rest"]
  by (simp add: decString_def encString_def)

lemma length_encodeUint: "length (encodeUint n) \<ge> 1"
  by (simp add: encodeUint_def Let_def)

lemma length_encString: "length s < length (encString s)"
proof -
  have "length (encString s) = length (encodeUint (length s)) + length s"
    by (simp add: encString_def)
  with length_encodeUint[of "length s"] show ?thesis by linarith
qed

lemma length_concat_encString: "length xs \<le> length (concat (map encString xs))"
proof (induction xs)
  case Nil
  then show ?case by simp
next
  case (Cons x xs)
  with length_encString[of x] show ?case by simp
qed

lemma decStrings_n_encStrings:
  assumes "length (concat (map encString xs)) < 18446744073709551616"
  shows "decStrings_n (length xs) (concat (map encString xs) @ rest) = Some (xs, rest)"
  using assms
proof (induction xs)
  case Nil
  then show ?case by simp
next
  case (Cons x xs)
  from Cons.prems length_encString[of x] have a: "length x < 18446744073709551616" by simp
  from Cons.prems have b: "length (concat (map encString xs)) < 18446744073709551616" by simp
  from decString_encString[OF a, of "concat (map encString xs) @ rest"] Cons.IH[OF b]
  show ?case by simp
qed

lemma decStrings_encStrings:
  assumes "length (encStrings xs) < 18446744073709551616"
  shows "decStrings (encStrings xs @ rest) = Some (xs, rest)"
proof -
  from assms have b: "length (concat (map encString xs)) < 18446744073709551616"
    by (simp add: encStrings_def)
  with length_concat_encString[of xs] have a: "length xs < 18446744073709551616" by simp
  from decodeUint_encodeUint[OF a, of "concat (map encString xs) @ rest"]
    decStrings_n_encStrings[OF b, of rest]
  show ?thesis by (simp add: decStrings_def encStrings_def)
qed

lemma decField_encField:
  assumes "length (encField f) < 18446744073709551616"
  shows "decField (zero_of f) (encField f @ rest) = Some (f, rest)"
proof (cases f)
  case (FString s)
  with assms length_encString[of s] have "length s < 18446744073709551616" by simp
  with FString decString_encString[of s rest] show ?thesis by simp
next
  case (FStrings xs)
  with assms decStrings_encStrings[of xs rest] show ?thesis by simp
qed

lemma zero_of_zero: "field_is_zero f \<Longrightarrow> zero_of f = f"
  by (cases f) simp_all

lemma length_encField: "length (encField f) \<ge> 1"
proof (cases f)
  case (FString s)
  with length_encString[of s] show ?thesis by simp
next
  case (FStrings xs)
  with length_encodeUint[of "length xs"] show ?thesis by (simp add: encStrings_def)
qed

lemma length_encFields: "length (encFields prev n fs) \<ge> 1"
proof (induction fs arbitrary: prev n)
  case Nil
  then show ?case by simp
next
  case (Cons f fs)
  from Cons[of prev "n + 1"] Cons[of n "n + 1"] show ?case by simp
qed

lemma decFields_encFields:
  assumes "length (encFields prev n fs) < 18446744073709551616"
    and "prev < n" and "n - prev < 128" and "n = int (length pre)"
    and "length fs < 100 - nat (n - prev)"
    and "fuel \<ge> length (encFields prev n fs)"
  shows "decFields fuel prev (pre @ map zero_of fs) (encFields prev n fs @ rest) =
           Some (pre @ fs, rest)"
  using assms
proof (induction fs arbitrary: prev n pre fuel)
  case Nil
  from Nil.prems obtain k where k: "fuel = Suc k" by (cases fuel) auto
  have "decodeUint (char_of (0 :: nat) # rest) = Some (0, rest)"
    by (simp add: decodeUint_def)
  with k show ?case by simp
next
  case (Cons f fs)
  show ?case
  proof (cases "field_is_zero f")
    case True
    have "decFields fuel prev ((pre @ [f]) @ map zero_of fs) (encFields prev (n + 1) fs @ rest) =
            Some ((pre @ [f]) @ fs, rest)"
      using Cons.prems True by (intro Cons.IH) auto
    with True show ?thesis by (simp add: zero_of_zero)
  next
    case False
    let ?d = "nat (n - prev)"
    from Cons.prems have d: "?d < 18446744073709551616" and dpos: "?d \<noteq> 0" by auto
    from Cons.prems False have lf: "length (encField f) < 18446744073709551616"
      and lr: "length (encFields n (n + 1) fs) < 18446744073709551616" by auto
    from Cons.prems False length_encodeUint[of ?d] length_encField[of f]
    obtain k where k: "fuel = Suc k" and kl: "k \<ge> length (encFields n (n + 1) fs)"
      by (cases fuel) auto
    have nn: "prev + int ?d = n" using Cons.prems by simp
    have idx: "nat n = length pre" using Cons.prems by simp
    have rec: "decFields k n ((pre @ [f]) @ map zero_of fs) (encFields n (n + 1) fs @ rest) =
                 Some ((pre @ [f]) @ fs, rest)"
      using Cons.prems lr kl by (intro Cons.IH) auto
    from decodeUint_encodeUint[OF d, of "encField f @ encFields n (n + 1) fs @ rest"]
      decField_encField[OF lf, of "encFields n (n + 1) fs @ rest"] rec
    show ?thesis
      using False k dpos nn idx Cons.prems(4)
      by (simp add: Let_def nth_append list_update_append)
  qed
qed

lemma CmdSandboxed_of_fields_fields: "CmdSandboxed_of_fields (CmdSandboxed_fields c) = Some c"
  by (simp add: CmdSandboxed_fields_def)

lemma decStruct_encStruct:
  assumes "length (encStruct c) < 18446744073709551616"
  shows "decStruct (encStruct c) = Some c"
proof -
  have z: "CmdSandboxed_fields CmdSandboxed_zero = map zero_of (CmdSandboxed_fields c)"
    by (simp add: CmdSandboxed_fields_def CmdSandboxed_zero_def)
  have "decFields (length (encStruct c)) (-1) ([] @ map zero_of (CmdSandboxed_fields c))
          (encFields (-1) 0 (CmdSandboxed_fields c) @ []) =
        Some ([] @ CmdSandboxed_fields c, [])"
    using assms
    by (intro decFields_encFields) (simp_all add: encStruct_def CmdSandboxed_fields_def)
  then have "decFields (length (encStruct c)) (-1) (map zero_of (CmdSandboxed_fields c))
          (encStruct c) = Some (CmdSandboxed_fields c, [])"
    by (simp add: encStruct_def)
  then show ?thesis
    by (simp add: decStruct_def z CmdSandboxed_of_fields_fields)
qed

lemma tooBig_small: "tooBig < 18446744073709551616"
  by (simp add: tooBig_def)

lemma message_step:
  assumes "decodeUint bs = Some (len, rest)" and "len < tooBig" and "len \<le> length rest"
    and "decodeInt (take len rest) = Some (tid, body)"
  shows "gob_Decode_messages (Suc fuel) known bs =
     (if tid < 0 then gob_Decode_messages fuel (- tid # known) (drop len rest)
      else if tid \<notin> set known then Inl (OtherError ''gob: bad data: undefined type'')
      else (case decStruct body of
              None \<Rightarrow> Inl (OtherError ''gob: bad data'')
            | Some c \<Rightarrow> Inr c))"
  using assms by simp

declare gob_Decode_messages.simps [simp del]

lemma message_decode:
  assumes "gob_message (encodeInt tid @ body) = Inr m"
    and "- 4611686018427387904 \<le> tid" and "tid < 4611686018427387904"
  shows "gob_Decode_messages (Suc fuel) known (m @ others) =
     (if tid < 0 then gob_Decode_messages fuel (- tid # known) others
      else if tid \<notin> set known then Inl (OtherError ''gob: bad data: undefined type'')
      else (case decStruct body of
              None \<Rightarrow> Inl (OtherError ''gob: bad data'')
            | Some c \<Rightarrow> Inr c))"
proof -
  define p where "p = encodeInt tid @ body"
  from assms(1) have l: "length p < tooBig" and m: "m = encodeUint (length p) @ p"
    by (auto simp: gob_message_def p_def split: if_splits)
  from l tooBig_small have "length p < 18446744073709551616" by linarith
  then have u: "decodeUint (encodeUint (length p) @ (p @ others)) = Some (length p, p @ others)"
    by (rule decodeUint_encodeUint)
  have "decodeInt (encodeInt tid @ body) = Some (tid, body)"
    using assms(2,3) by (rule decodeInt_encodeInt)
  then have i: "decodeInt (take (length p) (p @ others)) = Some (tid, body)"
    by (simp add: p_def)
  have le: "length p \<le> length (p @ others)" by simp
  have "gob_Decode_messages (Suc fuel) known (encodeUint (length p) @ (p @ others)) =
     (if tid < 0 then gob_Decode_messages fuel (- tid # known) (drop (length p) (p @ others))
      else if tid \<notin> set known then Inl (OtherError ''gob: bad data: undefined type'')
      else (case decStruct body of
              None \<Rightarrow> Inl (OtherError ''gob: bad data'')
            | Some c \<Rightarrow> Inr c))"
    by (rule message_step[OF u l le i])
  then show ?thesis by (simp add: m)
qed

lemma gob_message_nonempty: "gob_message p = Inr m \<Longrightarrow> length m \<ge> 1"
  using length_encodeUint[of "length p"]
  by (auto simp: gob_message_def split: if_splits)

lemma gob_Decode_gob_Encode:
  assumes "gob_Encode N c = Inr buf" and "64 \<le> N" and "N < 4611686018427387903"
  shows "gob_Decode buf = Inr c"
proof -
  from assms(1) obtain m1 m2 m3 where
    m1: "gob_message (encodeInt (- N) @ wireType_struct N) = Inr m1" and
    m2: "gob_message (encodeInt (- (N + 1)) @ wireType_slice (N + 1)) = Inr m2" and
    m3: "gob_message (encodeInt N @ encStruct c) = Inr m3" and
    buf: "buf = m1 @ m2 @ m3"
    by (auto simp: gob_Encode_def split: sum.splits)
  from gob_message_nonempty[OF m1] gob_message_nonempty[OF m2] gob_message_nonempty[OF m3]
  have "3 \<le> length buf" unfolding buf by simp
  then obtain k where "length buf = 3 + k" using le_Suc_ex by blast
  then have k: "length buf = Suc (Suc (Suc k))" by simp
  from m3 have l3: "length (encodeInt N @ encStruct c) < tooBig"
    by (auto simp: gob_message_def split: if_splits)
  with tooBig_small have "length (encStruct c) < 18446744073709551616" by simp
  then have s: "decStruct (encStruct c) = Some c" by (rule decStruct_encStruct)
  have a: "gob_Decode_messages (Suc (Suc (Suc k))) [] (m1 @ (m2 @ m3)) =
           gob_Decode_messages (Suc (Suc k)) [N] (m2 @ m3)"
    using message_decode[OF m1, of "Suc (Suc k)" "[]" "m2 @ m3"] assms(2,3) by simp
  have b: "gob_Decode_messages (Suc (Suc k)) [N] (m2 @ m3) =
           gob_Decode_messages (Suc k) [N + 1, N] m3"
    using message_decode[OF m2, of "Suc k" "[N]" m3] assms(2,3) by (simp add: add.commute)
  have c: "gob_Decode_messages (Suc k) [N + 1, N] m3 = Inr c"
    using message_decode[OF m3, of k "[N + 1, N]" "[]"] assms(2,3) s by (simp add: add.commute)
  from a b c have "gob_Decode_messages (length buf) [] (m1 @ (m2 @ m3)) = Inr c"
    unfolding k by simp
  then show ?thesis unfolding gob_Decode_def buf .
qed

lemma encodeUint_small: "n \<le> 127 \<Longrightarrow> encodeUint n = [char_of n]"
  by (simp add: encodeUint_def)

lemma length_encodeUint_le: "length (encodeUint n) \<le> 9"
proof -
  have "n mod 18446744073709551616 < 256 ^ 8" by simp
  then have "length (be_bytes (n mod 18446744073709551616)) \<le> 8" by (rule length_be_bytes)
  then show ?thesis by (simp add: encodeUint_def Let_def)
qed

lemma length_encodeInt_le: "length (encodeInt i) \<le> 9"
  by (simp add: encodeInt_def length_encodeUint_le)

lemma length_wireType_struct: "length (wireType_struct N) \<le> 200"
  using length_encodeInt_le[of N] length_encodeInt_le[of "N + 1"] length_encodeInt_le[of 6]
  by (simp add: wireType_struct_def wire_commonType_def wire_fieldType_def gob_byte_def
      encString_def encodeUint_small)

lemma length_wireType_slice: "length (wireType_slice M) \<le> 200"
  using length_encodeInt_le[of M] length_encodeInt_le[of 6]
  by (simp add: wireType_slice_def wire_commonType_def gob_byte_def
      encString_def encodeUint_small)

lemma gob_Encode_succeeds:
  assumes "length (encStruct c) + 9 < tooBig"
  shows "\<exists>buf. gob_Encode N c = Inr buf"
proof -
  have 1: "length (encodeInt (- N) @ wireType_struct N) < tooBig"
    using length_encodeInt_le[of "- N"] length_wireType_struct[of N] by (simp add: tooBig_def)
  have 2: "length (encodeInt (- (N + 1)) @ wireType_slice (N + 1)) < tooBig"
    using length_encodeInt_le[of "- (N + 1)"] length_wireType_slice[of "N + 1"]
    by (simp add: tooBig_def)
  have 3: "length (encodeInt N @ encStruct c) < tooBig"
    using length_encodeInt_le[of N] assms by simp
  from 1 2 3 show ?thesis
    by (simp add: gob_Encode_def gob_message_def)
qed

lemma encStruct_cmd_true:
  "encStruct cmd_true =
     [CHR 0x01, CHR 0x09] @ ''/bin/true'' @ [CHR 0x01, CHR 0x01, CHR 0x04] @ ''true'' @
     [CHR 0x01, CHR 0x01] @ ''/'' @ [CHR 0x00]"
proof -
  have l: "length ''/bin/true'' = 9" "length ''true'' = 4" "length ''/'' = 1"
    "length [''true''] = 1"
    by simp_all
  have c: "char_of (Suc 0) = CHR 0x01" "char_of (9 :: nat) = CHR 0x09"
    "char_of (4 :: nat) = CHR 0x04" "char_of (0 :: nat) = CHR 0x00"
    by (simp_all add: char_of_def bit_0)
  show ?thesis
    by (simp add: encStruct_def CmdSandboxed_fields_def cmd_true_def encString_def
        encStrings_def encodeUint_small l c del: list.size length_Cons)
qed

text \<open>
  Claim C9. When \<open>encodeCmdSb\<close> returns a buffer for a command, \<open>decodeCmdSb\<close> of
  that buffer returns no error and the command itself: the same \<open>Name\<close>, \<open>Args\<close>,
  \<open>Dir\<close>, \<open>Env\<close> and \<open>AllowedFSAccessPaths\<close>. \<open>N\<close> is the type id the encoder
  gives the struct; ids of user types start at 64. \<open>encodeCmdSb\<close> returns a buffer
  for every command whose encoded fields stay below the bound \<open>tooBig\<close> on the size
  of a message. Slices are lists here, so a nil slice and an empty slice are the
  same value.
\<close>

theorem decodeCmdSb_encodeCmdSb:
  "(encodeCmdSb N cmd = (Some buf, None) \<and> 64 \<le> N \<and> N < 4611686018427387903 \<longrightarrow>
      decodeCmdSb buf = (Some cmd, None)) \<and>
   (length (encStruct cmd) + 9 < tooBig \<longrightarrow> (\<exists>b. encodeCmdSb N cmd = (Some b, None)))"
proof -
  have "decodeCmdSb buf = (Some cmd, None)"
    if "encodeCmdSb N cmd = (Some buf, None)" and "64 \<le> N" and "N < 4611686018427387903"
  proof -
    from that(1) have "gob_Encode N cmd = Inr buf"
      by (auto simp: encodeCmdSb_def split: sum.splits)
    then have "gob_Decode buf = Inr cmd" using that(2,3) by (rule gob_Decode_gob_Encode)
    then show ?thesis by (simp add: decodeCmdSb_def)
  qed
  moreover have "\<exists>b. encodeCmdSb N cmd = (Some b, None)" if "length (encStruct cmd) + 9 < tooBig"
    using gob_Encode_succeeds[OF that, of N] by (auto simp: encodeCmdSb_def)
  ultimately show ?thesis by blast
qed

theorem decodeCmdSb_encodeCmdSb_witness:
  "encStruct cmd_true =
     [CHR 0x01, CHR 0x09] @ ''/bin/true'' @ [CHR 0x01, CHR 0x01, CHR 0x04] @ ''true'' @
     [CHR 0x01, CHR 0x01] @ ''/'' @ [CHR 0x00] \<and>
   (\<exists>buf. encodeCmdSb 64 cmd_true = (Some buf, None) \<and>
           decodeCmdSb buf = (Some cmd_true, None))"
proof -
  have "length (encStruct cmd_true) + 9 < tooBig"
    by (simp add: encStruct_cmd_true tooBig_def)
  with decodeCmdSb_encodeCmdSb[of 64 cmd_true]
  obtain b where b: "encodeCmdSb 64 cmd_true = (Some b, None)" by blast
  with decodeCmdSb_encodeCmdSb[of 64 cmd_true b]
  have "decodeCmdSb b = (Some cmd_true, None)" by simp
  with b encStruct_cmd_true show ?thesis by blast
qed

end
